(* ===== verification/Prelude.thy ===== *)
theory Prelude
  imports Main "HOL-Library.Word"
begin

text \<open>
  The prelude of the development: machine words, byte-addressed memory and page geometry.

  The kernel is compiled for AArch64: pointers and \<^verbatim>\<open>uint64_t\<close> are 64 bits, memory is an array
  of bytes, and multi-byte values are little endian. \<open>memory\<close> is that array; \<open>load64\<close> and
  \<open>store64\<close> are the 8-byte accesses the compiler emits for pointers and page-table entries,
  \<open>store8\<close> the byte stores of the string and page loops. Pages are 4096 bytes.

  The lemmas say when a load sees a store (same address, disjoint addresses, same or different
  page), and they carry every memory proof of the other theories.
\<close>

unbundle bit_operations_syntax

section \<open>Words and memory\<close>

type_synonym u8 = "8 word"
type_synonym u32 = "32 word"
type_synonym u64 = "64 word"
type_synonym memory = "u64 \<Rightarrow> u8"

definition store8 :: "memory \<Rightarrow> u64 \<Rightarrow> u8 \<Rightarrow> memory" where
  "store8 m a v = m(a := v)"

definition load64 :: "memory \<Rightarrow> u64 \<Rightarrow> u64" where
  "load64 m a =
     ucast (m a) OR push_bit 8 (ucast (m (a + 1))) OR push_bit 16 (ucast (m (a + 2))) OR
     push_bit 24 (ucast (m (a + 3))) OR push_bit 32 (ucast (m (a + 4))) OR
     push_bit 40 (ucast (m (a + 5))) OR push_bit 48 (ucast (m (a + 6))) OR
     push_bit 56 (ucast (m (a + 7)))"

definition store64 :: "memory \<Rightarrow> u64 \<Rightarrow> u64 \<Rightarrow> memory" where
  "store64 m a v =
     (\<lambda>x. if x - a < 8 then ucast (drop_bit (8 * unat (x - a)) v) else m x)"

text \<open>Two 8-byte accesses touch a common byte (addresses wrap at \<open>2 ^ 64\<close>).\<close>

definition overlap8 :: "u64 \<Rightarrow> u64 \<Rightarrow> bool" where
  "overlap8 a b \<longleftrightarrow> b - a < 8 \<or> a - b < 8"

named_theorems mem_simps \<open>loads after stores\<close>

lemma bit_byte_above: "8 \<le> n \<Longrightarrow> \<not> bit (b :: u8) n"
  using bit_imp_le_length [of b n] by auto

lemma bit_load64:
  assumes "n < 64"
  shows "bit (load64 m a) n \<longleftrightarrow> bit (m (a + of_nat (n div 8))) (n mod 8)"
proof -
  define q r where "q = n div 8" and "r = n mod 8"
  then have n: "n = 8 * q + r" and r: "r < 8" by simp_all
  from assms have "q \<in> {0, 1, 2, 3, 4, 5, 6, 7}" by (auto simp: q_def)
  then have "bit (load64 m a) (8 * q + r) \<longleftrightarrow> bit (m (a + of_nat q)) r"
    using r
    by (elim insertE emptyE)
      (simp_all add: load64_def bit_or_iff bit_push_bit_iff bit_ucast_iff bit_byte_above)
  then show ?thesis by (simp add: q_def r_def)
qed

lemma load64_store64_same [simp, mem_simps]: "load64 (store64 m a v) a = v"
proof (rule bit_word_eqI)
  fix n assume "n < LENGTH(64)"
  then have n: "n < 64" by simp
  then have "unat (of_nat (n div 8) :: u64) = n div 8"
    by (simp add: unat_of_nat take_bit_nat_eq_self)
  moreover from n have "(of_nat (n div 8) :: u64) < 8"
    by (simp add: word_less_nat_alt unat_of_nat take_bit_nat_eq_self less_mult_imp_div_less)
  ultimately show "bit (load64 (store64 m a v) a) n = bit v n"
    using n by (simp add: bit_load64 store64_def bit_ucast_iff bit_drop_bit_eq)
qed

lemma load64_low_byte: "m a = ucast (load64 m a)"
  by (rule bit_word_eqI) (simp add: bit_ucast_iff bit_load64)

lemma load64_cong:
  assumes "\<And>k. k < 8 \<Longrightarrow> m (a + k) = m' (a + k)"
  shows "load64 m a = load64 m' a"
proof -
  have "m (a + 0) = m' (a + 0)" by (rule assms) simp
  then show ?thesis by (simp add: load64_def assms)
qed

lemma store64_outside: "\<not> x - a < 8 \<Longrightarrow> store64 m a v x = m x"
  by (simp add: store64_def)

lemma overlap8_sym: "overlap8 a b \<longleftrightarrow> overlap8 b a"
  by (auto simp: overlap8_def)

lemma bytes_overlap8:
  fixes a b k :: u64
  assumes "k < 8" and "a + k - b < 8"
  shows "overlap8 b a"
  using assms unfolding overlap8_def by unat_arith

lemma no_overlap8:
  assumes "unat a + 8 \<le> unat b" "unat b \<le> unat a + 2 ^ 63"
  shows "\<not> overlap8 a b" "\<not> overlap8 b a"
proof -
  have "unat (b - a) = unat b - unat a" using assms(1) by (simp add: unat_sub_if')
  moreover have "unat (a - b) = 2 ^ 64 + unat a - unat b" using assms(1) by (simp add: unat_sub_if')
  ultimately have "\<not> b - a < 8" "\<not> a - b < 8"
    using assms unfolding word_less_nat_alt by simp_all
  then show "\<not> overlap8 a b" "\<not> overlap8 b a" by (simp_all add: overlap8_def)
qed

lemma load64_store64_other [mem_simps]:
  assumes "\<not> overlap8 a b"
  shows "load64 (store64 m a v) b = load64 m b"
  using assms by (auto intro!: load64_cong store64_outside dest: bytes_overlap8)

section \<open>Pages\<close>

definition page_aligned :: "u64 \<Rightarrow> bool" where
  "page_aligned a \<longleftrightarrow> a mod 4096 = 0"

definition in_page :: "u64 \<Rightarrow> u64 \<Rightarrow> bool" where
  "in_page p x \<longleftrightarrow> x - p < 4096"

lemma in_page_offset [simp]: "in_page p (p + k) \<longleftrightarrow> k < 4096"
  by (simp add: in_page_def)

lemma in_page_self [simp]: "in_page p p"
  by (simp add: in_page_def)

lemma page_aligned_dvd: "page_aligned a \<longleftrightarrow> 4096 dvd unat a"
  by (simp add: page_aligned_def word_eq_iff_unsigned [where ?'a = nat] unat_mod dvd_eq_mod_eq_0)

lemma unat64_less: "unat (x :: u64) < 18446744073709551616"
  using unsigned_less [of x] by simp

lemma unat32_less: "unat (x :: u32) < 4294967296"
  using unsigned_less [of x] by simp

lemma page_alignedE:
  assumes "page_aligned a"
  obtains k where "unat a = 4096 * k" and "k < 4503599627370496"
proof -
  from assms obtain k where "unat a = 4096 * k"
    by (auto simp: page_aligned_dvd)
  moreover from this have "k < 4503599627370496"
    using unat64_less [of a] by linarith
  ultimately show thesis by (rule that)
qed

lemma in_page_iff:
  assumes "page_aligned p"
  shows "in_page p x \<longleftrightarrow> unat x div 4096 = unat p div 4096"
proof -
  obtain k where p: "unat p = 4096 * k" and k: "k < 4503599627370496"
    using assms by (rule page_alignedE)
  define X where "X = unat x"
  have X: "X < 18446744073709551616" unfolding X_def by (rule unat64_less)
  show ?thesis
  proof (cases "4096 * k \<le> X")
    case True
    then have "unat (x - p) = X - 4096 * k" by (simp add: unat_sub_if' p X_def)
    moreover from True have "X - 4096 * k < 4096 \<longleftrightarrow> X div 4096 = k" by linarith
    ultimately show ?thesis by (simp add: in_page_def word_less_nat_alt p X_def)
  next
    case False
    then have "unat (x - p) = X + 18446744073709551616 - 4096 * k"
      by (simp add: unat_sub_if' p X_def)
    moreover from False k have "\<not> X + 18446744073709551616 - 4096 * k < 4096" by linarith
    moreover from False have "X div 4096 \<noteq> k" by linarith
    ultimately show ?thesis by (simp add: in_page_def word_less_nat_alt p X_def)
  qed
qed

lemma pages_disjoint:
  assumes "page_aligned p" "page_aligned q" "p \<noteq> q" "in_page p x"
  shows "\<not> in_page q x"
proof
  assume "in_page q x"
  with assms have eq: "unat p div 4096 = unat q div 4096" by (simp add: in_page_iff)
  from assms(1) have "unat p = 4096 * (unat p div 4096)" by (auto elim: page_alignedE)
  moreover from assms(2) have "unat q = 4096 * (unat q div 4096)" by (auto elim: page_alignedE)
  ultimately have "unat p = unat q" using eq by simp
  then have "p = q" by (simp add: word_eq_iff_unsigned [where ?'a = nat])
  with assms(3) show False by contradiction
qed

lemma page_aligned_add:
  assumes "page_aligned a" "page_aligned b" shows "page_aligned (a + b)"
proof -
  have "(4096::nat) dvd 2 ^ LENGTH(64)" by simp
  moreover have "4096 dvd unat a + unat b"
    using assms by (simp add: page_aligned_dvd)
  ultimately show ?thesis
    by (simp only: page_aligned_dvd unat_word_ariths dvd_mod_iff)
qed

lemma offset_bytes_in_page:
  fixes off k :: u64
  assumes "off \<le> 4088" "k < 8"
  shows "off + k < 4096"
  using assms by unat_arith

lemma load64_page_cong:
  assumes "\<And>x. in_page p x \<Longrightarrow> m x = m' x" and "off \<le> 4088"
  shows "load64 m (p + off) = load64 m' (p + off)"
proof (rule load64_cong)
  fix k :: u64 assume "k < 8"
  with assms(2) have "in_page p (p + (off + k))"
    by (simp add: offset_bytes_in_page)
  then show "m (p + off + k) = m' (p + off + k)"
    by (simp add: assms(1) add.assoc)
qed

lemma store64_other_page:
  assumes "off \<le> 4088" "\<not> in_page p x"
  shows "store64 m (p + off) v x = m x"
proof (rule store64_outside)
  show "\<not> x - (p + off) < 8"
  proof
    assume "x - (p + off) < 8"
    with assms(1) have "off + (x - (p + off)) < 4096" by (rule offset_bytes_in_page)
    with assms(2) show False by (simp add: in_page_def)
  qed
qed

section \<open>Tables of 512 entries\<close>

text \<open>\<open>slot t i\<close> is the address of element \<open>i\<close> of an array of \<^verbatim>\<open>uint64_t\<close> at \<open>t\<close>.\<close>

definition slot :: "u64 \<Rightarrow> u64 \<Rightarrow> u64" where
  "slot t i = t + 8 * i"

lemma unat_slot_offset:
  assumes "i < 512" shows "unat (8 * i :: u64) = 8 * unat i"
proof -
  from assms have "unat i < 512" by (simp add: word_less_nat_alt)
  then show ?thesis by (simp add: unat_word_ariths)
qed

lemma slot_offset_le: "i < 512 \<Longrightarrow> (8 * i :: u64) \<le> 4088"
  by (simp add: word_le_nat_alt unat_slot_offset) (simp add: word_less_nat_alt)

lemma slot_disjoint:
  assumes "i < 512" "j < 512" "i \<noteq> j"
  shows "\<not> overlap8 (slot t i) (slot t j)"
proof -
  define I J where "I = unat i" and "J = unat j"
  have IJ: "I < 512" "J < 512" "I \<noteq> J"
    using assms by (simp_all add: I_def J_def word_less_nat_alt word_eq_iff_unsigned [where ?'a = nat])
  have d: "unat (8 * j - 8 * i) = (if 8 * I \<le> 8 * J then 8 * J - 8 * I
             else 8 * J + 18446744073709551616 - 8 * I)"
    "unat (8 * i - 8 * j) = (if 8 * J \<le> 8 * I then 8 * I - 8 * J
             else 8 * I + 18446744073709551616 - 8 * J)"
    using assms by (simp_all add: unat_sub_if' unat_slot_offset I_def J_def)
  show ?thesis
    using IJ by (auto simp: overlap8_def slot_def word_less_nat_alt d)
qed

lemma load_slot_store_slot:
  assumes "i < 512" "j < 512"
  shows "load64 (store64 m (slot t i) v) (slot t j) = (if i = j then v else load64 m (slot t j))"
  using assms by (auto simp: load64_store64_other slot_disjoint)

lemma load_slot_other_page:
  assumes "\<And>x. in_page t x \<Longrightarrow> m x = m' x" and "i < 512"
  shows "load64 m (slot t i) = load64 m' (slot t i)"
  unfolding slot_def using assms by (intro load64_page_cong slot_offset_le)

section \<open>Zeroed pages\<close>

definition zero_page :: "memory \<Rightarrow> u64 \<Rightarrow> memory" where
  "zero_page m p = (\<lambda>x. if in_page p x then 0 else m x)"

lemma zero_page_outside [simp]: "\<not> in_page p x \<Longrightarrow> zero_page m p x = m x"
  by (simp add: zero_page_def)

lemma load64_zero_page: "off \<le> 4088 \<Longrightarrow> load64 (zero_page m p) (p + off) = 0"
proof -
  assume "off \<le> 4088"
  then have "load64 (zero_page m p) (p + off) = load64 (\<lambda>_. 0) (p + off)"
    by (intro load64_page_cong) (simp_all add: zero_page_def)
  then show ?thesis by (simp add: load64_def)
qed

lemma load_slot_zero_page: "i < 512 \<Longrightarrow> load64 (zero_page m p) (slot p i) = 0"
  unfolding slot_def by (intro load64_zero_page slot_offset_le)

section \<open>Runs of consecutive pages\<close>

primrec pages_from :: "u64 \<Rightarrow> nat \<Rightarrow> u64 list" where
  "pages_from c 0 = []"
| "pages_from c (Suc n) = c # pages_from (c + 4096) n"

lemma unat_add_page:
  "unat c + 4096 < 18446744073709551616 \<Longrightarrow> unat (c + 4096 :: u64) = unat c + 4096"
  by (simp add: unat_word_ariths)

lemma pages_from_bounds:
  assumes "unat c + 4096 * n \<le> 18446744073709551616" "f \<in> set (pages_from c n)"
  shows "unat c \<le> unat f \<and> unat f + 4096 \<le> unat c + 4096 * n"
  using assms
proof (induction n arbitrary: c)
  case (Suc n)
  show ?case
  proof (cases "f = c")
    case False
    with Suc.prems have f: "f \<in> set (pages_from (c + 4096) n)" by simp
    then have "n \<noteq> 0" by (cases n) auto
    with Suc.prems have c: "unat (c + 4096) = unat c + 4096" by (intro unat_add_page) (cases n, auto)
    from Suc.IH [OF _ f] Suc.prems show ?thesis by (simp add: c)
  qed simp
qed simp

lemma distinct_pages_from:
  "unat c + 4096 * n \<le> 18446744073709551616 \<Longrightarrow> distinct (pages_from c n)"
proof (induction n arbitrary: c)
  case (Suc n)
  show ?case
  proof (cases n)
    case (Suc k)
    with Suc.prems have c: "unat (c + 4096) = unat c + 4096" by (intro unat_add_page) simp
    with Suc.prems have b: "unat (c + 4096) + 4096 * n \<le> 18446744073709551616" by simp
    then have "c \<notin> set (pages_from (c + 4096) n)"
      using pages_from_bounds [OF b, of c] c by auto
    with Suc.IH [OF b] show ?thesis by simp
  qed simp
qed simp

lemma aligned_pages_from: "page_aligned c \<Longrightarrow> list_all page_aligned (pages_from c n)"
proof (induction n arbitrary: c)
  case (Suc n)
  have "page_aligned (4096 :: u64)" by (simp add: page_aligned_def)
  with Suc show ?case by (simp add: page_aligned_add)
qed simp

lemma last_pages_from: "last (pages_from c (Suc n)) = c + of_nat n * 4096"
proof (induction n arbitrary: c)
  case (Suc n)
  have "last (pages_from c (Suc (Suc n))) = last (pages_from (c + 4096) (Suc n))" by simp
  also have "\<dots> = c + 4096 + of_nat n * 4096" by (rule Suc.IH)
  finally show ?case by (simp add: algebra_simps)
qed simp

lemma nth_pages_from: "i < n \<Longrightarrow> pages_from c n ! i = c + of_nat i * 4096"
proof (induction n arbitrary: c i)
  case (Suc n)
  then show ?case by (cases i) (simp_all add: algebra_simps)
qed simp

lemma length_pages_from [simp]: "length (pages_from c n) = n"
  by (induction n arbitrary: c) simp_all

section \<open>Reachable states and invariants\<close>

text \<open>
  A system is an initial predicate and a step relation. The contract \<open>invariant_system\<close> asks for an
  invariant that holds initially and is kept by every step; what it gives is that the invariant
  holds in every reachable state and after every run.
\<close>

inductive reach :: "('s \<Rightarrow> bool) \<Rightarrow> ('s \<Rightarrow> 's \<Rightarrow> bool) \<Rightarrow> 's \<Rightarrow> bool"
  for init :: "'s \<Rightarrow> bool" and step :: "'s \<Rightarrow> 's \<Rightarrow> bool" where
  reach_init: "init s \<Longrightarrow> reach init step s"
| reach_step: "reach init step s \<Longrightarrow> step s s' \<Longrightarrow> reach init step s'"

lemma reach_run:
  assumes "step\<^sup>*\<^sup>* s t" "reach init step s"
  shows "reach init step t"
  using assms by (induction rule: rtranclp_induct) (auto intro: reach_step)

locale invariant_system =
  fixes init :: "'s \<Rightarrow> bool" and step :: "'s \<Rightarrow> 's \<Rightarrow> bool" and inv :: "'s \<Rightarrow> bool"
  assumes inv_init: "init s \<Longrightarrow> inv s"
    and inv_step: "inv s \<Longrightarrow> step s s' \<Longrightarrow> inv s'"
begin

lemma reach_inv: "reach init step s \<Longrightarrow> inv s"
  by (induction rule: reach.induct) (auto intro: inv_init inv_step)

lemma run_inv:
  assumes "step\<^sup>*\<^sup>* s s'" "inv s"
  shows "inv s'"
  using assms by (induction rule: rtranclp_induct) (auto intro: inv_step)

end

end
