(* ===== verification/Memory_Map.thy ===== *)
theory Memory_Map
  imports Prelude
begin

text \<open>
  The constants of \<^verbatim>\<open>kernel/memory_map.h\<close> and \<^verbatim>\<open>kernel/low_level.h\<close>: page size, table sizes, the
  configuration of the memory management unit, the kernel's virtual base, the RAM file system and
  the memory-mapped registers of the devices.
\<close>

section \<open>low\_level.h\<close>

definition PageSize :: u64 where
  "PageSize = 4096"

definition ROOTFS_FILE_COUNT :: nat where
  "ROOTFS_FILE_COUNT = 256"

definition ROOTFS_INODE_COUNT :: nat where
  "ROOTFS_INODE_COUNT = 256"

definition ROOTFS_MAX_FILENAME_SIZE :: nat where
  "ROOTFS_MAX_FILENAME_SIZE = 16"

section \<open>memory\_map.h\<close>

definition NCPU :: nat where
  "NCPU = 4"

subsection \<open>Configuration of the memory management unit\<close>

definition TCR_CONFIG_REGION_48bit :: u64 where
  "TCR_CONFIG_REGION_48bit = push_bit 0 (64 - 48) OR push_bit 16 (64 - 48)"

definition TCR_CONFIG_4KB :: u64 where
  "TCR_CONFIG_4KB = push_bit 14 0 OR push_bit 30 2"

definition TCR_CONFIG_DEFAULT :: u64 where
  "TCR_CONFIG_DEFAULT = TCR_CONFIG_REGION_48bit OR TCR_CONFIG_4KB"

definition MAIR_DEVICE_nGnRnE :: u64 where
  "MAIR_DEVICE_nGnRnE = 0"

definition MAIR_NORMAL_NOCACHE :: u64 where
  "MAIR_NORMAL_NOCACHE = 0b01000100"

definition MAIR_IDX_DEVICE_nGnRnE :: nat where
  "MAIR_IDX_DEVICE_nGnRnE = 0"

definition MAIR_IDX_NORMAL_NOCACHE :: nat where
  "MAIR_IDX_NORMAL_NOCACHE = 1"

subsection \<open>Addresses\<close>

definition VKERN_START :: u64 where
  "VKERN_START = 0xffff000000000000"

definition RAMFS_START :: u64 where
  "RAMFS_START = VKERN_START + 0x8000000"

definition MMIO_BASE :: u64 where
  "MMIO_BASE = VKERN_START + 0x3F000000"

definition MMIO_END :: u64 where
  "MMIO_END = VKERN_START + 0x40000000"

lemmas memory_map_defs = PageSize_def VKERN_START_def RAMFS_START_def MMIO_BASE_def MMIO_END_def

subsection \<open>Mini UART\<close>

definition AUX_IRQ :: u64 where "AUX_IRQ = MMIO_BASE + 0x00215000"
definition AUX_ENABLE :: u64 where "AUX_ENABLE = MMIO_BASE + 0x00215004"
definition AUX_MU_IO :: u64 where "AUX_MU_IO = MMIO_BASE + 0x00215040"
definition AUX_MU_IER :: u64 where "AUX_MU_IER = MMIO_BASE + 0x00215044"
definition AUX_MU_IIR :: u64 where "AUX_MU_IIR = MMIO_BASE + 0x00215048"
definition AUX_MU_LCR :: u64 where "AUX_MU_LCR = MMIO_BASE + 0x0021504C"
definition AUX_MU_MCR :: u64 where "AUX_MU_MCR = MMIO_BASE + 0x00215050"
definition AUX_MU_LSR :: u64 where "AUX_MU_LSR = MMIO_BASE + 0x00215054"
definition AUX_MU_MSR :: u64 where "AUX_MU_MSR = MMIO_BASE + 0x00215058"
definition AUX_MU_SCRATCH :: u64 where "AUX_MU_SCRATCH = MMIO_BASE + 0x0021505C"
definition AUX_MU_CNTL :: u64 where "AUX_MU_CNTL = MMIO_BASE + 0x00215060"
definition AUX_MU_STAT :: u64 where "AUX_MU_STAT = MMIO_BASE + 0x00215064"
definition AUX_MU_BAUD :: u64 where "AUX_MU_BAUD = MMIO_BASE + 0x00215068"

subsection \<open>General purpose pins\<close>

definition GPFSEL0 :: u64 where "GPFSEL0 = MMIO_BASE + 0x00200000"
definition GPFSEL1 :: u64 where "GPFSEL1 = MMIO_BASE + 0x00200004"
definition GPFSEL2 :: u64 where "GPFSEL2 = MMIO_BASE + 0x00200008"
definition GPFSEL3 :: u64 where "GPFSEL3 = MMIO_BASE + 0x0020000C"
definition GPFSEL4 :: u64 where "GPFSEL4 = MMIO_BASE + 0x00200010"
definition GPFSEL5 :: u64 where "GPFSEL5 = MMIO_BASE + 0x00200014"
definition GPSET0 :: u64 where "GPSET0 = MMIO_BASE + 0x0020001C"
definition GPSET1 :: u64 where "GPSET1 = MMIO_BASE + 0x00200020"
definition GPCLR0 :: u64 where "GPCLR0 = MMIO_BASE + 0x00200028"
definition GPLEV0 :: u64 where "GPLEV0 = MMIO_BASE + 0x00200034"
definition GPLEV1 :: u64 where "GPLEV1 = MMIO_BASE + 0x00200038"
definition GPEDS0 :: u64 where "GPEDS0 = MMIO_BASE + 0x00200040"
definition GPEDS1 :: u64 where "GPEDS1 = MMIO_BASE + 0x00200044"
definition GPHEN0 :: u64 where "GPHEN0 = MMIO_BASE + 0x00200064"
definition GPHEN1 :: u64 where "GPHEN1 = MMIO_BASE + 0x00200068"
definition GPPUD :: u64 where "GPPUD = MMIO_BASE + 0x00200094"
definition GPPUDCLK0 :: u64 where "GPPUDCLK0 = MMIO_BASE + 0x00200098"
definition GPPUDCLK1 :: u64 where "GPPUDCLK1 = MMIO_BASE + 0x0020009C"

subsection \<open>Interrupt controller\<close>

definition IRQ_BASIC_PENDING :: u64 where "IRQ_BASIC_PENDING = MMIO_BASE + 0x0000B200"
definition IRQ_PENDING_1 :: u64 where "IRQ_PENDING_1 = MMIO_BASE + 0x0000B204"
definition IRQ_PENDING_2 :: u64 where "IRQ_PENDING_2 = MMIO_BASE + 0x0000B208"
definition FIQ_CONTROL :: u64 where "FIQ_CONTROL = MMIO_BASE + 0x0000B20C"
definition ENABLE_IRQS_1 :: u64 where "ENABLE_IRQS_1 = MMIO_BASE + 0x0000B210"
definition ENABLE_IRQS_2 :: u64 where "ENABLE_IRQS_2 = MMIO_BASE + 0x0000B214"
definition ENABLE_BASIC_IRQS :: u64 where "ENABLE_BASIC_IRQS = MMIO_BASE + 0x0000B218"
definition DISABLE_IRQS_1 :: u64 where "DISABLE_IRQS_1 = MMIO_BASE + 0x0000B21C"
definition DISABLE_IRQS_2 :: u64 where "DISABLE_IRQS_2 = MMIO_BASE + 0x0000B220"
definition DISABLE_BASIC_IRQS :: u64 where "DISABLE_BASIC_IRQS = MMIO_BASE + 0x0000B224"
definition LOCAL_TIMER_IRQ :: u32 where "LOCAL_TIMER_IRQ = push_bit 11 1"

subsection \<open>Core timers and core interrupt sources\<close>

definition CORE0_TIMER_IRQ_CTRL :: u64 where "CORE0_TIMER_IRQ_CTRL = 0x40000040"
definition CORE1_TIMER_IRQ_CTRL :: u64 where "CORE1_TIMER_IRQ_CTRL = 0x40000044"
definition CORE2_TIMER_IRQ_CTRL :: u64 where "CORE2_TIMER_IRQ_CTRL = 0x40000048"
definition CORE3_TIMER_IRQ_CTRL :: u64 where "CORE3_TIMER_IRQ_CTRL = 0x4000004C"
definition CORE0_IRQ_SRC :: u64 where "CORE0_IRQ_SRC = 0x40000060"
definition CORE1_IRQ_SRC :: u64 where "CORE1_IRQ_SRC = 0x40000064"
definition CORE2_IRQ_SRC :: u64 where "CORE2_IRQ_SRC = 0x40000068"
definition CORE3_IRQ_SRC :: u64 where "CORE3_IRQ_SRC = 0x4000006C"

subsection \<open>Random numbers\<close>

definition RNG_CTRL :: u64 where "RNG_CTRL = MMIO_BASE + 0x00104000"
definition RNG_STATUS :: u64 where "RNG_STATUS = MMIO_BASE + 0x00104004"
definition RNG_DATA :: u64 where "RNG_DATA = MMIO_BASE + 0x00104008"
definition RNG_INT_MASK :: u64 where "RNG_INT_MASK = MMIO_BASE + 0x00104010"

subsection \<open>System timer\<close>

definition SYSTMR_LO :: u64 where "SYSTMR_LO = MMIO_BASE + 0x00003004"
definition SYSTMR_HI :: u64 where "SYSTMR_HI = MMIO_BASE + 0x00003008"

subsection \<open>SD card\<close>

definition EMMC_ARG2 :: u64 where "EMMC_ARG2 = MMIO_BASE + 0x00300000"
definition EMMC_BLKSIZECNT :: u64 where "EMMC_BLKSIZECNT = MMIO_BASE + 0x00300004"
definition EMMC_ARG1 :: u64 where "EMMC_ARG1 = MMIO_BASE + 0x00300008"
definition EMMC_CMDTM :: u64 where "EMMC_CMDTM = MMIO_BASE + 0x0030000C"
definition EMMC_RESP0 :: u64 where "EMMC_RESP0 = MMIO_BASE + 0x00300010"
definition EMMC_RESP1 :: u64 where "EMMC_RESP1 = MMIO_BASE + 0x00300014"
definition EMMC_RESP2 :: u64 where "EMMC_RESP2 = MMIO_BASE + 0x00300018"
definition EMMC_RESP3 :: u64 where "EMMC_RESP3 = MMIO_BASE + 0x0030001C"
definition EMMC_DATA :: u64 where "EMMC_DATA = MMIO_BASE + 0x00300020"
definition EMMC_STATUS :: u64 where "EMMC_STATUS = MMIO_BASE + 0x00300024"
definition EMMC_CONTROL0 :: u64 where "EMMC_CONTROL0 = MMIO_BASE + 0x00300028"
definition EMMC_CONTROL1 :: u64 where "EMMC_CONTROL1 = MMIO_BASE + 0x0030002C"
definition EMMC_INTERRUPT :: u64 where "EMMC_INTERRUPT = MMIO_BASE + 0x00300030"
definition EMMC_INT_MASK :: u64 where "EMMC_INT_MASK = MMIO_BASE + 0x00300034"
definition EMMC_INT_EN :: u64 where "EMMC_INT_EN = MMIO_BASE + 0x00300038"
definition EMMC_CONTROL2 :: u64 where "EMMC_CONTROL2 = MMIO_BASE + 0x0030003C"
definition EMMC_SLOTISR_VER :: u64 where "EMMC_SLOTISR_VER = MMIO_BASE + 0x003000FC"

subsection \<open>All registers\<close>

text \<open>In the order of their addresses.\<close>

definition peripheral_registers :: "u64 list" where
  "peripheral_registers =
    [SYSTMR_LO, SYSTMR_HI, IRQ_BASIC_PENDING, IRQ_PENDING_1, IRQ_PENDING_2, FIQ_CONTROL,
     ENABLE_IRQS_1, ENABLE_IRQS_2, ENABLE_BASIC_IRQS, DISABLE_IRQS_1, DISABLE_IRQS_2,
     DISABLE_BASIC_IRQS, RNG_CTRL, RNG_STATUS, RNG_DATA, RNG_INT_MASK, GPFSEL0, GPFSEL1, GPFSEL2,
     GPFSEL3, GPFSEL4, GPFSEL5, GPSET0, GPSET1, GPCLR0, GPLEV0, GPLEV1, GPEDS0, GPEDS1, GPHEN0,
     GPHEN1, GPPUD, GPPUDCLK0, GPPUDCLK1, AUX_IRQ, AUX_ENABLE, AUX_MU_IO, AUX_MU_IER, AUX_MU_IIR,
     AUX_MU_LCR, AUX_MU_MCR, AUX_MU_LSR, AUX_MU_MSR, AUX_MU_SCRATCH, AUX_MU_CNTL, AUX_MU_STAT,
     AUX_MU_BAUD, EMMC_ARG2, EMMC_BLKSIZECNT, EMMC_ARG1, EMMC_CMDTM, EMMC_RESP0, EMMC_RESP1,
     EMMC_RESP2, EMMC_RESP3, EMMC_DATA, EMMC_STATUS, EMMC_CONTROL0, EMMC_CONTROL1, EMMC_INTERRUPT,
     EMMC_INT_MASK, EMMC_INT_EN, EMMC_CONTROL2, EMMC_SLOTISR_VER]"

definition core_registers :: "u64 list" where
  "core_registers =
    [CORE0_TIMER_IRQ_CTRL, CORE1_TIMER_IRQ_CTRL, CORE2_TIMER_IRQ_CTRL, CORE3_TIMER_IRQ_CTRL,
     CORE0_IRQ_SRC, CORE1_IRQ_SRC, CORE2_IRQ_SRC, CORE3_IRQ_SRC]"

lemmas register_defs = SYSTMR_LO_def SYSTMR_HI_def IRQ_BASIC_PENDING_def IRQ_PENDING_1_def
  IRQ_PENDING_2_def FIQ_CONTROL_def ENABLE_IRQS_1_def ENABLE_IRQS_2_def ENABLE_BASIC_IRQS_def
  DISABLE_IRQS_1_def DISABLE_IRQS_2_def DISABLE_BASIC_IRQS_def RNG_CTRL_def RNG_STATUS_def
  RNG_DATA_def RNG_INT_MASK_def GPFSEL0_def GPFSEL1_def GPFSEL2_def GPFSEL3_def GPFSEL4_def
  GPFSEL5_def GPSET0_def GPSET1_def GPCLR0_def GPLEV0_def GPLEV1_def GPEDS0_def GPEDS1_def
  GPHEN0_def GPHEN1_def GPPUD_def GPPUDCLK0_def GPPUDCLK1_def AUX_IRQ_def AUX_ENABLE_def
  AUX_MU_IO_def AUX_MU_IER_def AUX_MU_IIR_def AUX_MU_LCR_def AUX_MU_MCR_def AUX_MU_LSR_def
  AUX_MU_MSR_def AUX_MU_SCRATCH_def AUX_MU_CNTL_def AUX_MU_STAT_def AUX_MU_BAUD_def
  EMMC_ARG2_def EMMC_BLKSIZECNT_def EMMC_ARG1_def EMMC_CMDTM_def EMMC_RESP0_def EMMC_RESP1_def
  EMMC_RESP2_def EMMC_RESP3_def EMMC_DATA_def EMMC_STATUS_def EMMC_CONTROL0_def
  EMMC_CONTROL1_def EMMC_INTERRUPT_def EMMC_INT_MASK_def EMMC_INT_EN_def EMMC_CONTROL2_def
  EMMC_SLOTISR_VER_def memory_map_defs

lemmas core_register_defs = CORE0_TIMER_IRQ_CTRL_def CORE1_TIMER_IRQ_CTRL_def
  CORE2_TIMER_IRQ_CTRL_def CORE3_TIMER_IRQ_CTRL_def CORE0_IRQ_SRC_def CORE1_IRQ_SRC_def
  CORE2_IRQ_SRC_def CORE3_IRQ_SRC_def

lemma registers_ascending: "sorted_wrt (<) (core_registers @ peripheral_registers)"
proof -
  have "successively (<) (core_registers @ peripheral_registers)"
    by (simp add: core_registers_def peripheral_registers_def) (simp add: core_register_defs register_defs)
  then show ?thesis by (simp only: successively_conv_sorted_wrt [OF transp_on_less])
qed

end
