(* ===== verification/Kalloc.thy ===== *)
theory Kalloc
  imports Memory_Map
begin

text \<open>
  The page-frame allocator, \<^verbatim>\<open>kernel/kalloc.c\<close>. Free frames form a singly linked list threaded
  through the first eight bytes of each frame (\<^verbatim>\<open>struct PageFrame.next\<close>), with the head in the
  global \<^verbatim>\<open>page_frame_linked_list\<close>. \<open>kmem\<close> holds the physical memory and that global; the later
  components extend the record with their own globals.

  \<open>kalloc\<close> returns \<open>None\<close> where the code returns -1 and \<open>Some f\<close> where it stores \<open>f\<close> through
  its argument and returns 0. \<open>kfree\<close> takes a \<^verbatim>\<open>struct PageFrame **\<close>: \<open>Var f\<close> is the address of
  a variable that holds \<open>f\<close>, \<open>At a\<close> a pointer into the memory itself, whose target is read
  each time the code writes \<^verbatim>\<open>*page\<close>.

  Shown here: \<open>clear_page\<close> zeroes exactly its page, \<open>kalloc_init\<close> builds the list of all frames
  of its range, and \<open>kalloc\<close>/\<open>kfree\<close> implement a last-in first-out pool of frames. The
  contract is the locale \<open>page_allocator\<close>; the other components use its facts.
\<close>

section \<open>State and operations\<close>

record kmem =
  mem :: memory
  page_frame_linked_list :: u64

datatype page_ref = Var u64 | At u64

primrec deref :: "page_ref \<Rightarrow> memory \<Rightarrow> u64" where
  "deref (Var v) m = v"
| "deref (At a) m = load64 m a"

definition kalloc_end :: u64 where
  "kalloc_end = MMIO_BASE - VKERN_START"

text \<open>
  \<^verbatim>\<open>clear_page\<close>: the loop counter runs to \<^verbatim>\<open>PageSize - sizeof(struct Pageframe*)\<close>, and \<^verbatim>\<open>data\<close>
  starts eight bytes into the frame.
\<close>

lemma kalloc_end_eq: "kalloc_end = 0x3F000000"
  by (simp add: kalloc_end_def memory_map_defs)

function clear_page_loop :: "nat \<Rightarrow> u64 \<Rightarrow> memory \<Rightarrow> memory" where
  "clear_page_loop i page m =
     (if i < 4096 - 8 then clear_page_loop (i + 1) page (store8 m (page + 8 + of_nat i) 0) else m)"
  by pat_completeness auto
termination
  by (relation "measure (\<lambda>(i, _). 4096 - i)") auto

declare clear_page_loop.simps [simp del]

definition clear_page :: "u64 \<Rightarrow> memory \<Rightarrow> memory" where
  "clear_page page m = clear_page_loop 0 page (store64 m page 0)"

definition kfree :: "page_ref \<Rightarrow> 'a kmem_scheme \<Rightarrow> 'a kmem_scheme" where
  "kfree page s =
     (let s1 = s\<lparr>mem := clear_page (deref page (mem s)) (mem s)\<rparr>;
          s2 = s1\<lparr>mem := store64 (mem s1) (deref page (mem s1)) (page_frame_linked_list s1)\<rparr>
      in s2\<lparr>page_frame_linked_list := deref page (mem s2)\<rparr>)"

definition kalloc :: "'a kmem_scheme \<Rightarrow> u64 option \<times> 'a kmem_scheme" where
  "kalloc s =
     (let previous_head = page_frame_linked_list s
      in if previous_head = 0 then (None, s)
         else (let s1 = s\<lparr>page_frame_linked_list := load64 (mem s) previous_head\<rparr>;
                   s2 = s1\<lparr>mem := clear_page previous_head (mem s1)\<rparr>
               in (Some previous_head, s2)))"

function kalloc_init_loop ::
  "u64 \<Rightarrow> u64 \<Rightarrow> u64 \<Rightarrow> u64 \<Rightarrow> memory \<Rightarrow> u64 \<times> u64 \<times> memory" where
  "kalloc_init_loop current_address previous_frame current_frame num_pages m =
     (if current_address \<le> kalloc_end
      then (let current_frame = current_address;
                m = (if previous_frame \<noteq> 0 then store64 m previous_frame current_frame else m)
            in kalloc_init_loop (current_address + PageSize) current_frame current_frame
                 (num_pages + 1) m)
      else (current_frame, num_pages, m))"
  by pat_completeness auto
termination
proof (relation "measure (\<lambda>(c, _). 0x3F001000 - unat c)", simp)
  fix c :: u64 and p f n m x xa
  assume "c \<le> kalloc_end"
  then have "unat c \<le> 0x3F000000" by (simp add: kalloc_end_eq word_le_nat_alt)
  then show "((c + PageSize, x, x, n + 1, xa), c, p, f, n, m)
      \<in> measure (\<lambda>(c, _). 0x3F001000 - unat c)"
    by (simp add: PageSize_def unat_word_ariths)
qed

declare kalloc_init_loop.simps [simp del]

definition kalloc_init :: "u64 \<Rightarrow> 'a kmem_scheme \<Rightarrow> 'a kmem_scheme" where
  "kalloc_init kalloc_start s =
     (let current_address = kalloc_start
      in if current_address + PageSize < kalloc_end
         then (let s1 = s\<lparr>page_frame_linked_list := current_address\<rparr>;
                   (current_frame, _, m) =
                     kalloc_init_loop (current_address + PageSize) (page_frame_linked_list s1) 0 0
                       (mem s1)
               in s1\<lparr>mem := store64 m current_frame 0\<rparr>)
         else s)"

section \<open>The free list\<close>

text \<open>
  \<open>free_list m h fs\<close>: following \<open>next\<close> from \<open>h\<close> in \<open>m\<close> visits exactly \<open>fs\<close> and ends at
  \<^verbatim>\<open>NULL\<close>. \<open>frames s fs\<close> is the allocator's invariant: the frames are pairwise distinct and page
  aligned, so no two of them share a byte.
\<close>

primrec free_list :: "memory \<Rightarrow> u64 \<Rightarrow> u64 list \<Rightarrow> bool" where
  "free_list m h [] \<longleftrightarrow> h = 0"
| "free_list m h (f # fs) \<longleftrightarrow> h = f \<and> f \<noteq> 0 \<and> free_list m (load64 m f) fs"

definition frames :: "'a kmem_scheme \<Rightarrow> u64 list \<Rightarrow> bool" where
  "frames s fs \<longleftrightarrow>
     free_list (mem s) (page_frame_linked_list s) fs \<and> distinct fs \<and> list_all page_aligned fs"

text \<open>How many frames \<open>kalloc_init\<close> links from address \<open>c\<close> on, and the links it writes.\<close>

definition frame_count :: "u64 \<Rightarrow> nat" where
  "frame_count c = (if c \<le> kalloc_end then Suc ((unat kalloc_end - unat c) div 4096) else 0)"

primrec link :: "memory \<Rightarrow> u64 \<Rightarrow> u64 list \<Rightarrow> memory" where
  "link m p [] = m"
| "link m p (f # fs) = link (store64 m p f) f fs"

datatype frame_op = Alloc | Free u64

text \<open>
  The abstract allocator is a stack of frames. A trace of operations is legal when every freed
  address is a page-aligned, non-null frame that is not in the pool already.
\<close>

fun pool_run :: "frame_op list \<Rightarrow> u64 list \<Rightarrow> (u64 option list \<times> u64 list) option" where
  "pool_run [] fs = Some ([], fs)"
| "pool_run (Alloc # ops) [] =
     map_option (\<lambda>(out, fs). (None # out, fs)) (pool_run ops [])"
| "pool_run (Alloc # ops) (f # fs) =
     map_option (\<lambda>(out, fs). (Some f # out, fs)) (pool_run ops fs)"
| "pool_run (Free f # ops) fs =
     (if page_aligned f \<and> f \<noteq> 0 \<and> f \<notin> set fs then pool_run ops (f # fs) else None)"

fun trace_run ::
  "('s \<Rightarrow> u64 option \<times> 's) \<Rightarrow> (u64 \<Rightarrow> 's \<Rightarrow> 's) \<Rightarrow> frame_op list \<Rightarrow> 's \<Rightarrow> u64 option list \<times> 's" where
  "trace_run alloc free [] s = ([], s)"
| "trace_run alloc free (Alloc # ops) s =
     (let (r, s1) = alloc s; (out, s2) = trace_run alloc free ops s1 in (r # out, s2))"
| "trace_run alloc free (Free f # ops) s = trace_run alloc free ops (free f s)"

section \<open>Lemmas\<close>

lemma clear_page_loop_eq:
  "i \<le> 4088 \<Longrightarrow> clear_page_loop i page m =
     (\<lambda>x. if i \<le> unat (x - (page + 8)) \<and> unat (x - (page + 8)) < 4088 then 0 else m x)"
proof (induction i page m rule: clear_page_loop.induct)
  case (1 i page m)
  show ?case
  proof (cases "i < 4088")
    case True
    then have i: "unat (of_nat i :: u64) = i"
      by (simp add: unat_of_nat take_bit_nat_eq_self)
    have eq: "x = page + 8 + of_nat i \<longleftrightarrow> unat (x - (page + 8)) = i" for x
    proof -
      have "x = page + 8 + of_nat i \<longleftrightarrow> x - (page + 8) = of_nat i" by (auto simp: diff_eq_eq)
      then show ?thesis by (simp add: word_eq_iff_unsigned [where ?'a = nat] i)
    qed
    from True "1.IH" have
      "clear_page_loop i page m = (\<lambda>x. if i + 1 \<le> unat (x - (page + 8)) \<and> unat (x - (page + 8)) < 4088
         then 0 else store8 m (page + 8 + of_nat i) 0 x)"
      by (subst clear_page_loop.simps) simp
    then show ?thesis using True by (auto simp: store8_def eq fun_eq_iff)
  next
    case False
    with "1.prems" have "i = 4088" by simp
    then show ?thesis by (subst clear_page_loop.simps) (auto simp: fun_eq_iff)
  qed
qed

lemma clear_page_zero [simp]: "clear_page page m = zero_page m page"
proof
  fix x
  have "unat (x - page - 8) < 4088 \<longleftrightarrow> x - page < 4096 \<and> \<not> x - page < 8" 
    by (simp add: word_less_nat_alt unat_sub_if') unat_arith 
  moreover have "x - page < 8 \<Longrightarrow> x - page < 4096" by unat_arith
  ultimately show "clear_page page m x = zero_page m page x"
    by (auto simp: clear_page_def clear_page_loop_eq store64_def zero_page_def in_page_def
        diff_diff_eq [symmetric])
qed


lemma free_list_cong:
  assumes "\<And>f. f \<in> set fs \<Longrightarrow> load64 m f = load64 m' f"
  shows "free_list m h fs = free_list m' h fs"
  using assms by (induction fs arbitrary: h) auto

lemma load64_other_frame:
  assumes "page_aligned f" "page_aligned g" "f \<noteq> g"
    and "\<And>x. \<not> in_page g x \<Longrightarrow> m x = m' x"
  shows "load64 m f = load64 m' f"
  using load64_page_cong [of f m m' 0] assms pages_disjoint by auto

lemma free_list_other_frame:
  assumes "list_all page_aligned fs" "page_aligned g" "g \<notin> set fs"
    and "\<And>x. \<not> in_page g x \<Longrightarrow> m x = m' x"
  shows "free_list m h fs = free_list m' h fs"
  by (rule free_list_cong, rule load64_other_frame [of _ g]) (use assms in \<open>auto simp: list_all_iff\<close>)

lemma kalloc_none: "page_frame_linked_list s = 0 \<Longrightarrow> kalloc s = (None, s)"
  by (simp add: kalloc_def)

lemma kalloc_some:
  assumes "frames s (f # fs)"
  defines "s' \<equiv> s\<lparr>page_frame_linked_list := load64 (mem s) f, mem := zero_page (mem s) f\<rparr>"
  shows "kalloc s = (Some f, s')" and "frames s' fs"
proof -
  show "kalloc s = (Some f, s')" using assms by (simp add: kalloc_def frames_def Let_def)
  have "free_list (mem s) (load64 (mem s) f) fs" using assms by (simp add: frames_def)
  moreover have "free_list (zero_page (mem s) f) (load64 (mem s) f) fs =
      free_list (mem s) (load64 (mem s) f) fs"
    by (rule free_list_other_frame [of _ f]) (use assms in \<open>auto simp: frames_def\<close>)
  ultimately show "frames s' fs" using assms by (simp add: frames_def)
qed

lemma kfree_var:
  assumes "frames s fs" "page_aligned f" "f \<noteq> 0" "f \<notin> set fs"
  shows "frames (kfree (Var f) s) (f # fs)"
proof -
  define m' where "m' = store64 (zero_page (mem s) f) f (page_frame_linked_list s)"
  have "free_list m' (page_frame_linked_list s) fs = free_list (mem s) (page_frame_linked_list s) fs"
    using store64_other_page [of 0 f]
    by (intro free_list_other_frame [of _ f]) (use assms in \<open>auto simp: m'_def frames_def\<close>)
  then show ?thesis using assms by (simp add: frames_def kfree_def Let_def m'_def)
qed

lemma load64_link:
  assumes "list_all page_aligned (p # fs)" "page_aligned q" "q \<notin> set (p # fs)"
  shows "load64 (link m p fs) q = load64 m q"
  using assms
proof (induction fs arbitrary: m p)
  case (Cons f fs)
  then have "load64 (store64 m p f) q = load64 m q"
    using store64_other_page [of 0 p] by (intro load64_other_frame [of q p]) auto
  with Cons show ?case by simp
qed simp

lemma free_list_link:
  assumes "list_all page_aligned (p # fs)" "distinct (p # fs)" "0 \<notin> set (p # fs)"
  shows "free_list (store64 (link m p fs) (last (p # fs)) 0) p (p # fs)"
  using assms
proof (induction fs arbitrary: m p)
  case (Cons f fs)
  let ?m = "link (store64 m p f) f fs"
  have IH: "free_list (store64 ?m (last (f # fs)) 0) f (f # fs)"
    by (rule Cons.IH) (use Cons.prems in auto)
  have l: "last (f # fs) \<in> set (f # fs)" by (rule last_in_set) simp
  then have "load64 (store64 ?m (last (f # fs)) 0) p = load64 ?m p"
    using Cons.prems store64_other_page [of 0 "last (f # fs)"]
    by (intro load64_other_frame [of p "last (f # fs)"]) (auto simp: list_all_iff)
  also have "\<dots> = f" using Cons.prems by (subst load64_link) auto
  finally have "load64 (store64 ?m (last (f # fs)) 0) p = f" .
  with IH Cons.prems show ?case by simp
qed simp

lemma frame_count_step:
  assumes "frame_count c = Suc n"
  shows "c \<le> kalloc_end" "frame_count (c + PageSize) = n" "unat (c + PageSize) = unat c + 4096"
proof -
  show le: "c \<le> kalloc_end" using assms by (auto simp: frame_count_def split: if_splits)
  then have le': "unat c \<le> 1056964608" by (simp add: kalloc_end_eq word_le_nat_alt)
  show step: "unat (c + PageSize) = unat c + 4096"
    unfolding PageSize_def by (rule unat_add_page) (use le' in linarith)
  have "(1056964608 - unat c) div 4096 =
      (if unat c + 4096 \<le> 1056964608 then Suc ((1056960512 - unat c) div 4096) else 0)"
    using le' by (cases "unat c + 4096 \<le> 1056964608") auto
  then show "frame_count (c + PageSize) = n"
    using assms le by (simp add: frame_count_def kalloc_end_eq word_le_nat_alt step
        split: if_splits)
qed

lemma kalloc_init_loop_link:
  assumes "frame_count c = n" "p \<noteq> 0" "c \<noteq> 0"
  shows "kalloc_init_loop c p cf num m =
    (last (cf # pages_from c n), num + of_nat n, link m p (pages_from c n))"
  using assms
proof (induction n arbitrary: c p cf num m)
  case 0
  then have "\<not> c \<le> kalloc_end" by (simp add: frame_count_def split: if_splits)
  then show ?case by (simp add: kalloc_init_loop.simps)
next
  case (Suc n)
  note step = frame_count_step [OF Suc.prems(1)]
  then have "c + PageSize \<noteq> 0" by (metis add_is_0 unsigned_0 zero_neq_numeral)
  with step Suc.prems show ?case
    by (subst kalloc_init_loop.simps) (simp add: Suc.IH PageSize_def add.commute)
qed

lemma kalloc_init_frames:
  assumes "page_aligned start" "start \<noteq> 0" "start + PageSize < kalloc_end" "start < kalloc_end"
  shows "frames (kalloc_init start s) (pages_from start (frame_count start))"
proof -
  obtain n where n: "frame_count start = Suc n"
    using assms(4) by (auto simp: frame_count_def dest: order.strict_implies_order)
  note step = frame_count_step [OF n]
  let ?fs = "pages_from (start + 4096) n"
  have bound: "unat start + 4096 * frame_count start \<le> 18446744073709551616"
    using step(1) by (simp add: frame_count_def kalloc_end_eq word_le_nat_alt) 
  have fs: "list_all page_aligned (start # ?fs)" "distinct (start # ?fs)"
    using aligned_pages_from [OF assms(1), of "Suc n"] distinct_pages_from [OF bound] n by simp_all
  moreover have "0 \<notin> set (start # ?fs)"
    using pages_from_bounds [OF bound, of 0] n assms(2) by (auto simp: unsigned_eq_0_iff)
  moreover have "kalloc_init_loop (start + PageSize) start 0 0 (mem s) =
      (last (0 # ?fs), of_nat n, link (mem s) start ?fs)"
    using kalloc_init_loop_link [OF step(2) assms(2)] step(3)
    by (metis PageSize_def add.left_neutral add_is_0 unsigned_0 zero_neq_numeral)
  moreover have "n \<noteq> 0"
    using assms(3) step(2) by (auto simp: frame_count_def split: if_splits)
  then have "?fs \<noteq> []" by (cases n) auto
  ultimately show ?thesis
    using free_list_link [of start ?fs "mem s"] assms(3) n
    by (simp add: kalloc_init_def frames_def Let_def)
qed

section \<open>The contract of a page allocator\<close>

locale page_allocator =
  fixes alloc :: "'s \<Rightarrow> u64 option \<times> 's"
    and free :: "u64 \<Rightarrow> 's \<Rightarrow> 's"
    and avail :: "'s \<Rightarrow> u64 list \<Rightarrow> bool"
    and contents :: "'s \<Rightarrow> memory"
  assumes alloc_empty: "avail s [] \<Longrightarrow> alloc s = (None, s)"
    and alloc_frame: "avail s (f # fs) \<Longrightarrow> \<exists>s'. alloc s = (Some f, s') \<and> avail s' fs \<and>
          contents s' = zero_page (contents s) f"
    and free_frame: "avail s fs \<Longrightarrow> page_aligned f \<Longrightarrow> f \<noteq> 0 \<Longrightarrow> f \<notin> set fs \<Longrightarrow>
          avail (free f s) (f # fs)"
    and avail_wf: "avail s fs \<Longrightarrow> distinct fs \<and> list_all page_aligned fs \<and> 0 \<notin> set fs"
begin

lemma trace_refines_pool:
  assumes "avail s fs" and "pool_run ops fs = Some (out, fs')"
  shows "\<exists>s'. trace_run alloc free ops s = (out, s') \<and> avail s' fs'"
  using assms
proof (induction ops fs arbitrary: s out rule: pool_run.induct)
  case (2 ops)
  then show ?case by (fastforce simp: alloc_empty)
next
  case (3 ops f fs)
  obtain s1 where "alloc s = (Some f, s1)" "avail s1 fs"
    using alloc_frame [OF "3.prems"(1)] by blast
  with 3 show ?case by fastforce
next
  case (4 f ops fs)
  then show ?case by (auto split: if_splits intro: free_frame)
qed auto

lemma alloc_after_free:
  assumes "avail s fs" "page_aligned f" "f \<noteq> 0" "f \<notin> set fs"
  shows "\<exists>s'. alloc (free f s) = (Some f, s') \<and> avail s' fs"
  using alloc_frame [OF free_frame [OF assms]] by blast

lemma alloc_None_iff:
  assumes "avail s fs"
  shows "fst (alloc s) = None \<longleftrightarrow> fs = []"
  using assms alloc_empty alloc_frame by (cases fs) force+

lemma alloc_cases:
  assumes "avail s fs"
  obtains "alloc s = (None, s)" "fs = []"
  | f fs' s' where "fs = f # fs'" "alloc s = (Some f, s')" "avail s' fs'"
      "contents s' = zero_page (contents s) f" "page_aligned f" "f \<noteq> 0" "f \<notin> set fs'"
  using assms alloc_empty alloc_frame avail_wf [OF assms] by (cases fs) force+

end

lemma free_list_nonzero: "free_list m h fs \<Longrightarrow> 0 \<notin> set fs"
  by (induction fs arbitrary: h) auto

lemma free_list_nth:
  "free_list m h fs \<Longrightarrow> i + 1 < length fs \<Longrightarrow> load64 m (fs ! i) = fs ! (i + 1)"
proof (induction fs arbitrary: h i)
  case (Cons f fs)
  then show ?case by (cases i; cases fs) auto
qed simp

text \<open>The allocator changes nothing but the memory and its list head.\<close>

named_theorems kmem_frame \<open>operations that change only the fields of \<open>kmem\<close>\<close>

lemma alloc_frame [kmem_frame]:
  "kmem.more (snd (kalloc s)) = kmem.more s" "kmem.more (kfree p s) = kmem.more s"
  "kmem.more (kalloc_init a s) = kmem.more s"
  by (simp_all add: kalloc_def kfree_def kalloc_init_def Let_def split: prod.splits)

interpretation ka: page_allocator kalloc "\<lambda>f. kfree (Var f)" frames mem
proof
  fix s :: "'a kmem_scheme"
  assume "frames s []"
  then show "kalloc s = (None, s)" by (simp add: frames_def kalloc_none)
next
  fix s :: "'a kmem_scheme" and f fs
  assume "frames s (f # fs)"
  from kalloc_some [OF this] show "\<exists>s'. kalloc s = (Some f, s') \<and> frames s' fs \<and>
      mem s' = zero_page (mem s) f" by auto
next
  fix s :: "'a kmem_scheme" and f fs
  assume "frames s fs" "page_aligned f" "f \<noteq> 0" "f \<notin> set fs"
  then show "frames (kfree (Var f) s) (f # fs)" by (rule kfree_var)
next
  fix s :: "'a kmem_scheme" and fs
  assume "frames s fs"
  then show "distinct fs \<and> list_all page_aligned fs \<and> 0 \<notin> set fs"
    by (auto simp: frames_def dest: free_list_nonzero)
qed

section \<open>Properties\<close>

text \<open>
  C5: \<open>kalloc\<close> and \<open>kfree\<close> refine the stack of frames. From any state whose free list is \<open>fs\<close>,
  every legal sequence of allocations and frees returns exactly what the abstract pool
  returns, in the same order (-1 precisely when the pool is empty), and ends in a state
  whose free list is the pool's.
\<close>

theorem allocator_refines_pool:
  assumes "frames s fs" and "pool_run ops fs = Some (out, fs')"
  shows "\<exists>s'. trace_run kalloc (\<lambda>f. kfree (Var f)) ops s = (out, s') \<and> frames s' fs'"
  using assms by (rule ka.trace_refines_pool)

theorem allocator_refines_pool_witness:
  "\<exists>s'. trace_run kalloc (\<lambda>f. kfree (Var f)) [Alloc, Alloc, Free 0x3000, Alloc, Alloc]
      \<lparr>mem = store64 (\<lambda>_. 0) 0x1000 0x2000, page_frame_linked_list = 0x1000\<rparr> =
        ([Some 0x1000, Some 0x2000, Some 0x3000, None], s') \<and> frames s' []"
proof (rule allocator_refines_pool)
  show "frames \<lparr>mem = store64 (\<lambda>_. 0) 0x1000 0x2000, page_frame_linked_list = 0x1000\<rparr> [0x1000, 0x2000]"
    by (simp add: frames_def page_aligned_def load64_store64_other overlap8_def) (simp add: load64_def)
  show "pool_run [Alloc, Alloc, Free 0x3000, Alloc, Alloc] [0x1000, 0x2000] =
      Some ([Some 0x1000, Some 0x2000, Some 0x3000, None], [])"
    by (simp add: page_aligned_def)
qed

text \<open>
  C6: \<open>kalloc_init\<close> on a page-aligned range links every frame from \<open>kalloc_start\<close> on in address
  order into a well-formed free list.
\<close>

theorem kalloc_init_builds_free_list:
  assumes "page_aligned kalloc_start" "kalloc_start \<noteq> 0"
    and "kalloc_start < kalloc_end" "kalloc_start + PageSize < kalloc_end"
  shows "frames (kalloc_init kalloc_start s) (pages_from kalloc_start (frame_count kalloc_start))"
  using assms(1,2,4,3) by (rule kalloc_init_frames)

theorem kalloc_init_builds_free_list_witness:
  "frames (kalloc_init 0x3EFFE000 \<lparr>mem = (\<lambda>_. 7), page_frame_linked_list = 0\<rparr>)
     [0x3EFFE000, 0x3EFFF000, 0x3F000000]"
proof -
  have "frame_count 0x3EFFE000 = 3" by (simp add: frame_count_def kalloc_end_eq)
  moreover have "pages_from 0x3EFFE000 3 = [0x3EFFE000, 0x3EFFF000, 0x3F000000]"
    by (simp add: numeral_3_eq_3)
  ultimately show ?thesis
    using kalloc_init_builds_free_list [of "0x3EFFE000" "\<lparr>mem = (\<lambda>_. 7), page_frame_linked_list = 0\<rparr>"]
    by (simp add: page_aligned_def kalloc_end_eq PageSize_def)
qed

text \<open>
  \<open>clear_page\<close>, a pointer store followed by a byte loop, is the same function as zeroing the 4096
  bytes of the page, for every address and memory.
\<close>

theorem clear_page_zeroes_page: "clear_page page m = zero_page m page"
  by (rule clear_page_zero)

text \<open>
  The free list built by \<open>kalloc_init\<close> runs one frame too far. Its last frame starts at
  \<open>kalloc_end\<close> itself, the first page of the memory-mapped devices.
\<close>

theorem kalloc_init_includes_mmio_page:
  assumes "page_aligned kalloc_start" "kalloc_start < kalloc_end"
  shows "last (pages_from kalloc_start (frame_count kalloc_start)) = MMIO_BASE - VKERN_START"
proof -
  obtain k where k: "unat kalloc_start = 4096 * k" using assms(1) by (rule page_alignedE)
  with assms(2) have "k < 258048" by (simp add: word_less_nat_alt kalloc_end_eq)
  then obtain d where d: "258048 = k + d" using less_imp_add_positive by metis
  then have "(1056964608 - 4096 * k) div 4096 = d" by simp
  then have n: "frame_count kalloc_start = Suc d"
    using order.strict_implies_order [OF assms(2)] k by (simp add: frame_count_def kalloc_end_eq)
  have "unat (of_nat d * 4096 :: u64) = d * 4096"
    using d by (simp add: unat_word_ariths unat_of_nat take_bit_nat_eq_self)
  then have "unat (kalloc_start + of_nat d * 4096) = 1056964608"
    using k d by (simp add: unat_word_ariths)
  then have "kalloc_start + of_nat d * 4096 = 0x3F000000"
    by (simp add: word_eq_iff_unsigned [where ?'a = nat])
  then show ?thesis
    unfolding n last_pages_from by (simp add: memory_map_defs)
qed

theorem kalloc_init_includes_mmio_page_witness:
  "last (pages_from 0x90000 (frame_count 0x90000)) = MMIO_BASE - VKERN_START"
  using kalloc_init_includes_mmio_page [of "0x90000"] by (simp add: page_aligned_def kalloc_end_eq)

end
