(* ===== verification/Strings.thy ===== *)
theory Strings
  imports Memory_Map
begin

text \<open>
  \<^verbatim>\<open>kernel/string.c\<close>: \<^verbatim>\<open>strequal\<close> and the kernel's three-argument \<^verbatim>\<open>strcpy\<close>.

  A C string is given by the bytes reachable from its pointer, \<open>cstr i\<close> being the byte \<open>i\<close>
  places on, or \<open>None\<close> where the access leaves the object the pointer points into.
  \<open>strequal\<close> is \<open>None\<close> when it would read outside an object or never meets a terminator.
\<close>

type_synonym cstr = "nat \<Rightarrow> u8 option"

text \<open>The string at address \<open>p\<close> of the memory, and the string in a byte array.\<close>

definition mem_str :: "memory \<Rightarrow> u64 \<Rightarrow> cstr" where
  "mem_str m p = (\<lambda>i. Some (m (p + of_nat i)))"

definition arr_str :: "u8 list \<Rightarrow> cstr" where
  "arr_str xs = (\<lambda>i. if i < length xs then Some (xs ! i) else None)"

partial_function (option) strequal_loop :: "cstr \<Rightarrow> cstr \<Rightarrow> nat \<Rightarrow> u8 option" where
  "strequal_loop str1 str2 i =
     (case str1 i of
        None \<Rightarrow> None
      | Some c1 \<Rightarrow>
          if c1 \<noteq> 0
          then (case str2 i of
                  None \<Rightarrow> None
                | Some c2 \<Rightarrow>
                    if c1 = c2 then strequal_loop str1 str2 (i + 1) else Some 0)
          else Some 1)"

declare strequal_loop.simps [code]

definition strequal :: "cstr \<Rightarrow> cstr \<Rightarrow> u8 option" where
  "strequal str1 str2 = strequal_loop str1 str2 0"

text \<open>
  \<^verbatim>\<open>strcpy(src, dst, size)\<close>: the loop body is \<^verbatim>\<open>*dst = *src\<close>, with neither pointer moving. The
  counter is a 32-bit \<^verbatim>\<open>int\<close>, sign-extended for the comparison with the 64-bit size; an increment
  past \<open>2 ^ 31 - 1\<close> wraps, as the code is built without optimisation.
\<close>

function strcpy_loop :: "u32 \<Rightarrow> u64 \<Rightarrow> u64 \<Rightarrow> u64 \<Rightarrow> memory \<Rightarrow> memory" where
  "strcpy_loop i src dst sz m =
     (if (scast i :: u64) < sz then strcpy_loop (i + 1) src dst sz (store8 m dst (m src)) else m)"
  by pat_completeness auto
termination
proof (relation "measure (\<lambda>(i, _). 4294967296 - unat i)", simp)
  fix i :: u32 and src dst sz :: u64 and m :: memory
  assume "(scast i :: u64) < sz"
  then have "i \<noteq> -1" by auto
  then have "1 + i \<noteq> 0" by (metis add_eq_0_iff)
  then have "unat (i + 1) = unat i + 1" using unatSuc [of i] by (simp add: add.commute)
  then show "((i + 1, src, dst, sz, store8 m dst (m src)), (i, src, dst, sz, m)) \<in> measure (\<lambda>(i, _). 4294967296 - unat i)"
    using unat32_less [of i] by simp
qed

declare strcpy_loop.simps [simp del]

definition strcpy :: "u64 \<Rightarrow> u64 \<Rightarrow> u64 \<Rightarrow> memory \<Rightarrow> memory" where
  "strcpy src dst sz m = strcpy_loop 0 src dst sz m"

text \<open>\<open>is_cstring s n\<close>: the string of \<open>s\<close> has length \<open>n\<close>, its terminator at index \<open>n\<close>.\<close>

definition is_cstring :: "cstr \<Rightarrow> nat \<Rightarrow> bool" where
  "is_cstring s n \<longleftrightarrow> s n = Some 0 \<and> (\<forall>i<n. s i \<noteq> None \<and> s i \<noteq> Some 0)"

section \<open>Lemmas\<close>

lemma strequal_loop_stop: "str1 i = Some 0 \<Longrightarrow> strequal_loop str1 str2 i = Some 1"
  by (simp add: strequal_loop.simps)

lemma strequal_loop_prefix:
  assumes "is_cstring s1 n" "is_cstring s2 k" "i \<le> n" "i \<le> k"
  shows "strequal_loop s1 s2 i =
    Some (if n \<le> k \<and> (\<forall>j. i \<le> j \<and> j < n \<longrightarrow> s1 j = s2 j) then 1 else 0)"
  using assms
proof (induction "n - i" arbitrary: i)
  case 0
  then have "i = n" by simp
  with 0 show ?case by (simp add: is_cstring_def strequal_loop_stop)
next
  case (Suc d)
  then have "i < n" by simp
  then obtain c1 where c1: "s1 i = Some c1" "c1 \<noteq> 0"
    using Suc.prems by (auto simp: is_cstring_def)
  obtain c2 where c2: "s2 i = Some c2" and c2': "i = k \<longleftrightarrow> c2 = 0"
    using Suc.prems by (auto simp: is_cstring_def) (metis le_neq_implies_less)
  show ?case
  proof (cases "c1 = c2")
    case False
    with c1 c2 \<open>i < n\<close> have "\<not> (\<forall>j. i \<le> j \<and> j < n \<longrightarrow> s1 j = s2 j)" by auto
    with False c1 c2 show ?thesis by (subst strequal_loop.simps) auto
  next
    case True
    with c1 c2' Suc.prems have "i + 1 \<le> k" by auto
    with Suc \<open>i < n\<close> have "strequal_loop s1 s2 (i + 1) =
        Some (if n \<le> k \<and> (\<forall>j. i + 1 \<le> j \<and> j < n \<longrightarrow> s1 j = s2 j) then 1 else 0)"
      by (intro Suc.hyps(1)) auto
    moreover have "(\<forall>j. i + 1 \<le> j \<and> j < n \<longrightarrow> s1 j = s2 j) \<longleftrightarrow>
        (\<forall>j. i \<le> j \<and> j < n \<longrightarrow> s1 j = s2 j)"
      using True c1 c2 by (metis Suc_eq_plus1 Suc_leD not_less_eq_eq order_antisym_conv)
    ultimately show ?thesis using True c1 c2 by (subst strequal_loop.simps) simp
  qed
qed

text \<open>
  What the file system uses of \<open>strequal\<close>: on terminated strings it returns, and tests for a prefix.
\<close>

locale string_test =
  fixes eq :: "cstr \<Rightarrow> cstr \<Rightarrow> u8 option"
  assumes eq_terminated: "is_cstring s n \<Longrightarrow> is_cstring t k \<Longrightarrow>
    eq s t = Some (if n \<le> k \<and> (\<forall>j<n. s j = t j) then 1 else 0)"
begin

lemma returns: "is_cstring s n \<Longrightarrow> is_cstring t k \<Longrightarrow> \<exists>r. eq s t = Some r"
  by (simp add: eq_terminated)

lemma empty_matches: "is_cstring s 0 \<Longrightarrow> is_cstring t k \<Longrightarrow> eq s t = Some 1"
  by (simp add: eq_terminated)

lemma same_matches: "is_cstring s n \<Longrightarrow> eq s s = Some 1"
  by (simp add: eq_terminated)

end

interpretation streq: string_test strequal
  by unfold_locales (use strequal_loop_prefix [where i = 0] in \<open>simp add: strequal_def\<close>)

lemma strcpy_loop_idem:
  assumes "m dst = m src" shows "strcpy_loop i src dst sz m = m"
  using assms
proof (induction i src dst sz m rule: strcpy_loop.induct)
  case (1 i src dst sz m)
  then have "store8 m dst (m src) = m" by (simp add: store8_def fun_upd_idem)
  with 1 show ?case by (subst strcpy_loop.simps) auto
qed

lemma strcpy_eq:
  "strcpy src dst sz m = (if sz = 0 then m else store8 m dst (m src))"
proof (cases "sz = 0")
  case False
  then have "(scast (0 :: u32) :: u64) < sz" by (simp add: word_gt_0)
  moreover have "strcpy_loop 1 src dst sz (store8 m dst (m src)) = store8 m dst (m src)"
    by (rule strcpy_loop_idem) (simp add: store8_def)
  ultimately show ?thesis using False by (simp add: strcpy_def strcpy_loop.simps [of 0])
qed (simp add: strcpy_def strcpy_loop.simps)

lemma strcpy_copies: "sz \<noteq> 0 \<Longrightarrow> strcpy src dst sz m = m(dst := m src)"
  by (simp add: strcpy_eq store8_def)

section \<open>Properties\<close>

text \<open>
  C19: on two terminated strings of lengths \<open>n\<close> and \<open>k\<close>, \<open>strequal\<close> always returns, and returns 1
  exactly when the first string is a prefix of the second (not only when they are equal).
\<close>

theorem strequal_is_prefix_test:
  assumes "is_cstring s1 n" "is_cstring s2 k"
  shows "strequal s1 s2 = Some (if n \<le> k \<and> (\<forall>j<n. s1 j = s2 j) then 1 else 0)"
  using assms by (rule streq.eq_terminated)

theorem strequal_is_prefix_test_witness:
  "strequal (arr_str [105, 110, 0]) (arr_str [105, 110, 105, 116, 0]) = Some 1"
proof -
  have "is_cstring (arr_str [105, 110, 0]) 2" "is_cstring (arr_str [105, 110, 105, 116, 0]) 4"
    by code_simp+
  moreover have "\<forall>j<2. arr_str [105, 110, 0] j = arr_str [105, 110, 105, 116, 0] j" by code_simp
  ultimately show ?thesis using strequal_is_prefix_test by fastforce
qed

text \<open>
  \<open>strcpy\<close> copies at most one byte: for any non-zero size the only effect is that the first
  byte of the destination becomes the first byte of the source.
\<close>

theorem strcpy_copies_one_byte:
  "strcpy src dst sz m = (if sz = 0 then m else m(dst := m src))"
  by (simp add: strcpy_eq store8_def)

end
