(* ===== verification/Spinlock.thy ===== *)
theory Spinlock
  imports Memory_Map
begin

text \<open>
  The spin lock of \<^verbatim>\<open>kernel/lock.c\<close> (lines 6--38), first as the functions of one caller, then as
  the interleaved system of all cores.

  \<^verbatim>\<open>int8_t\<close> is \<^verbatim>\<open>char\<close>, which is unsigned on AArch64: \<^verbatim>\<open>cpu = -1\<close> stores 255. \<open>masked\<close> is the
  interrupt mask of the calling core, set by \<^verbatim>\<open>disable_interrupts\<close>. \<^verbatim>\<open>__atomic_test_and_set\<close> sets
  the byte to 1 and returns whether it was set.
\<close>

section \<open>The lock and its functions\<close>

record SpinLock =
  locked :: u8
  cpu :: u8
  lock_name :: u64

definition spinlock_init :: "u64 \<Rightarrow> SpinLock \<Rightarrow> SpinLock" where
  "spinlock_init nm lk = lk\<lparr>locked := 0, cpu := -1, lock_name := nm\<rparr>"

definition spinlock_holds :: "u8 \<Rightarrow> SpinLock \<Rightarrow> bool" where
  "spinlock_holds cpu_id lck \<longleftrightarrow> cpu lck = cpu_id"

definition test_and_set :: "SpinLock \<Rightarrow> bool \<times> SpinLock" where
  "test_and_set lck = (locked lck \<noteq> 0, lck\<lparr>locked := 1\<rparr>)"

partial_function (option) spin_until_set :: "SpinLock \<Rightarrow> SpinLock option" where
  "spin_until_set lck =
     (case test_and_set lck of (old, lck') \<Rightarrow>
        if old then spin_until_set lck' else Some lck')"

declare spin_until_set.simps [code]

definition spinlock_acquire :: "u8 \<Rightarrow> bool \<times> SpinLock \<Rightarrow> (bool \<times> SpinLock) option" where
  "spinlock_acquire cpu_id st =
     (case st of (masked, lck) \<Rightarrow>
        (case spin_until_set lck of
           None \<Rightarrow> None
         | Some lck' \<Rightarrow> Some (True, lck'\<lparr>cpu := cpu_id\<rparr>)))"

definition spinlock_release :: "u8 \<Rightarrow> bool \<times> SpinLock \<Rightarrow> int \<times> bool \<times> SpinLock" where
  "spinlock_release cpu_id st =
     (case st of (masked, lck) \<Rightarrow>
        if \<not> spinlock_holds cpu_id lck then (-1, masked, lck)
        else (0, masked, lck\<lparr>cpu := 0, locked := 0\<rparr>))"

section \<open>All cores together\<close>

text \<open>
  Each core runs \<^verbatim>\<open>spinlock_acquire\<close>, its critical section and \<^verbatim>\<open>spinlock_release\<close> in a loop; a
  step is one shared-memory access of one core, in the order of the code: the test-and-set of
  the spin loop, the store to \<^verbatim>\<open>cpu\<close>, the test of \<^verbatim>\<open>spinlock_holds\<close> (\<open>refuse\<close> is the
  return of -1), the store \<^verbatim>\<open>cpu = 0\<close> and the
  atomic clear. \<open>Owned\<close> is after the successful test-and-set and before the store to \<^verbatim>\<open>cpu\<close>.
\<close>

datatype lock_pc = Idle | Spinning | Owned | Critical | Releasing | Clearing

record lock_sys =
  lock :: SpinLock
  pcs :: "u8 \<Rightarrow> lock_pc"
  daif :: "u8 \<Rightarrow> bool"

definition lock_boot :: "lock_sys \<Rightarrow> bool" where
  "lock_boot s \<longleftrightarrow> locked (lock s) = 0 \<and> pcs s = (\<lambda>_. Idle)"

inductive lock_step :: "lock_sys \<Rightarrow> lock_sys \<Rightarrow> bool" where
  enter: "pcs s i = Idle \<Longrightarrow>
    lock_step s (s\<lparr>pcs := (pcs s)(i := Spinning), daif := (daif s)(i := True)\<rparr>)"
| spin: "pcs s i = Spinning \<Longrightarrow> test_and_set (lock s) = (True, lk) \<Longrightarrow>
    lock_step s (s\<lparr>lock := lk\<rparr>)"
| take: "pcs s i = Spinning \<Longrightarrow> test_and_set (lock s) = (False, lk) \<Longrightarrow>
    lock_step s (s\<lparr>lock := lk, pcs := (pcs s)(i := Owned)\<rparr>)"
| set_cpu: "pcs s i = Owned \<Longrightarrow>
    lock_step s (s\<lparr>lock := (lock s)\<lparr>cpu := i\<rparr>, pcs := (pcs s)(i := Critical)\<rparr>)"
| release: "pcs s i = Critical \<Longrightarrow> spinlock_holds i (lock s) \<Longrightarrow>
    lock_step s (s\<lparr>pcs := (pcs s)(i := Releasing)\<rparr>)"
| refuse: "pcs s i = Critical \<Longrightarrow> \<not> spinlock_holds i (lock s) \<Longrightarrow>
    lock_step s (s\<lparr>pcs := (pcs s)(i := Idle)\<rparr>)"
| clear_cpu: "pcs s i = Releasing \<Longrightarrow>
    lock_step s (s\<lparr>lock := (lock s)\<lparr>cpu := 0\<rparr>, pcs := (pcs s)(i := Clearing)\<rparr>)"
| unlock: "pcs s i = Clearing \<Longrightarrow>
    lock_step s (s\<lparr>lock := (lock s)\<lparr>locked := 0\<rparr>, pcs := (pcs s)(i := Idle)\<rparr>)"

definition holding :: "lock_pc \<Rightarrow> bool" where
  "holding p \<longleftrightarrow> p = Owned \<or> p = Critical \<or> p = Releasing \<or> p = Clearing"

definition lock_inv :: "lock_sys \<Rightarrow> bool" where
  "lock_inv s \<longleftrightarrow>
     (locked (lock s) \<noteq> 0 \<longleftrightarrow> (\<exists>i. holding (pcs s i))) \<and>
     (\<forall>i j. holding (pcs s i) \<longrightarrow> holding (pcs s j) \<longrightarrow> i = j) \<and>
     (\<forall>i. pcs s i = Critical \<or> pcs s i = Releasing \<longrightarrow> cpu (lock s) = i) \<and>
     (\<forall>i. pcs s i \<noteq> Idle \<longrightarrow> daif s i)"

text \<open>Two states of the system for the examples: all cores idle, and core 2 inside.\<close>

definition idle_sys :: lock_sys where
  "idle_sys = \<lparr>lock = spinlock_init 0 \<lparr>locked = 7, cpu = 7, lock_name = 7\<rparr>, pcs = (\<lambda>_. Idle), daif = (\<lambda>_. False)\<rparr>"

definition held_sys :: lock_sys where
  "held_sys = idle_sys\<lparr>lock := (lock idle_sys)\<lparr>locked := 1, cpu := 2\<rparr>, pcs := (pcs idle_sys)(2 := Critical),
                      daif := (daif idle_sys)(2 := True)\<rparr>"

section \<open>Lemmas\<close>

inductive_simps lock_step_from: "lock_step s t"

lemma holding_simps [simp]:
  "\<not> holding Idle" "\<not> holding Spinning" "holding Owned" "holding Critical" "holding Releasing"
  "holding Clearing"
  by (simp_all add: holding_def)

lemma lock_invD:
  assumes "lock_inv s"
  shows "locked (lock s) \<noteq> 0 \<longleftrightarrow> (\<exists>i. holding (pcs s i))"
    "\<And>i j. holding (pcs s i) \<Longrightarrow> holding (pcs s j) \<Longrightarrow> i = j"
    "\<And>i. pcs s i = Critical \<or> pcs s i = Releasing \<Longrightarrow> cpu (lock s) = i"
    "\<And>i. pcs s i \<noteq> Idle \<Longrightarrow> daif s i"
  using assms unfolding lock_inv_def by blast+

lemma lock_boot_inv: "lock_boot s \<Longrightarrow> lock_inv s"
  by (simp add: lock_boot_def lock_inv_def)

lemma holding_upd:
  "(\<exists>k. holding ((f(i := p)) k)) \<longleftrightarrow> holding p \<or> (\<exists>k. k \<noteq> i \<and> holding (f k))"
  by auto

lemma lock_inv_upd:
  assumes inv: "lock_inv s"
    and lk: "locked lk \<noteq> 0 \<longleftrightarrow> holding p \<or> (\<exists>k. k \<noteq> i \<and> holding (pcs s k))"
    and alone: "holding p \<Longrightarrow> \<not> holding (pcs s i) \<Longrightarrow> locked (lock s) = 0"
    and own: "p = Critical \<or> p = Releasing \<Longrightarrow> cpu lk = i"
    and keep: "\<not> holding (pcs s i) \<Longrightarrow> cpu lk = cpu (lock s)"
    and da: "p \<noteq> Idle \<Longrightarrow> d i" "\<And>k. k \<noteq> i \<Longrightarrow> d k = daif s k"
  shows "lock_inv (s\<lparr>lock := lk, pcs := (pcs s)(i := p), daif := d\<rparr>)"
proof -
  note I = lock_invD [OF inv]
  have other: "\<not> holding (pcs s k)" if "k \<noteq> i" "holding p" for k
    using I(1,2) alone that by metis
  have cp: "cpu lk = k" if "k \<noteq> i" "pcs s k = Critical \<or> pcs s k = Releasing" for k
  proof -
    have "holding (pcs s k)" using that(2) by auto
    then have "\<not> holding (pcs s i)" using I(2) that(1) by blast
    then show ?thesis using keep I(3) that(2) by simp
  qed
  show ?thesis
    unfolding lock_inv_def
    using lk other I(2) own cp da I(4) by (auto simp: holding_upd)
qed

lemma lock_sys_same [simp]:
  "s\<lparr>lock := lock s, pcs := f, daif := d\<rparr> = s\<lparr>pcs := f, daif := d\<rparr>"
  "s\<lparr>lock := lk, pcs := f, daif := daif s\<rparr> = s\<lparr>lock := lk, pcs := f\<rparr>"
  "s\<lparr>pcs := f, daif := daif s\<rparr> = s\<lparr>pcs := f\<rparr>"
  by (cases s; simp)+

lemma lock_step_inv:
  assumes inv: "lock_inv s" and step: "lock_step s t"
  shows "lock_inv t"
  using step
proof (cases rule: lock_step.cases)
  note I = lock_invD [OF inv]
  have ex: "(\<exists>k. k \<noteq> i \<and> holding (pcs s k)) \<longleftrightarrow> locked (lock s) \<noteq> 0 \<and> \<not> holding (pcs s i)" for i
    using I(1,2) by metis
  have set: "locked (lock s) \<noteq> 0" if "holding (pcs s i)" for i
    using I(1) that by blast
  {
    case (enter i)
    with lock_inv_upd [OF inv, of "lock s" Spinning i "(daif s)(i := True)"] ex [of i]
    show ?thesis by simp
  next
    case (spin i lk)
    with I show ?thesis by (auto simp: lock_inv_def test_and_set_def)
  next
    case (take i lk)
    with lock_inv_upd [OF inv, of lk Owned i "daif s"] ex [of i] I(4) [of i]
    show ?thesis by (auto simp: test_and_set_def)
  next
    case (set_cpu i)
    then have "holding (pcs s i)" by simp
    with set_cpu lock_inv_upd [OF inv, of "(lock s)\<lparr>cpu := i\<rparr>" Critical i "daif s"] ex [of i] set [of i] I(4) [of i]
    show ?thesis by auto
  next
    case (release i)
    then have "holding (pcs s i)" by simp
    with release lock_inv_upd [OF inv, of "lock s" Releasing i "daif s"] ex [of i] set [of i] I(3,4) [of i]
    show ?thesis by auto
  next
    case (refuse i)
    with I(3) [of i] show ?thesis by (simp add: spinlock_holds_def)
  next
    case (clear_cpu i)
    then have "holding (pcs s i)" by simp
    with clear_cpu lock_inv_upd [OF inv, of "(lock s)\<lparr>cpu := 0\<rparr>" Clearing i "daif s"] ex [of i] set [of i] I(4) [of i]
    show ?thesis by auto
  next
    case (unlock i)
    then have "holding (pcs s i)" by simp
    with unlock lock_inv_upd [OF inv, of "(lock s)\<lparr>locked := 0\<rparr>" Idle i "daif s"] ex [of i]
    show ?thesis by simp
  }
qed

interpretation spin: invariant_system lock_boot lock_step lock_inv
  by unfold_locales (auto intro: lock_boot_inv lock_step_inv)

lemma spin_until_set_free:
  "locked lck = 0 \<Longrightarrow> spin_until_set lck = Some (lck\<lparr>locked := 1\<rparr>)"
  by (subst spin_until_set.simps) (simp add: test_and_set_def)

lemma spin_until_set_Some:
  assumes "spin_until_set lck = Some lck'"
  shows "locked lck = 0"
proof (rule spin_until_set.raw_induct [where P = "\<lambda>lck lck'. locked lck = 0", OF _ assms])
  fix spin :: "SpinLock \<Rightarrow> SpinLock option" and lck lck' :: SpinLock
  assume IH: "\<And>lck lck'. spin lck = Some lck' \<Longrightarrow> locked lck = 0"
    and eq: "(case test_and_set lck of (old, lck') \<Rightarrow> if old then spin lck' else Some lck') = Some lck'"
  show "locked lck = 0"
  proof (rule ccontr)
    assume "locked lck \<noteq> 0"
    with eq have "spin (lck\<lparr>locked := 1\<rparr>) = Some lck'" by (simp add: test_and_set_def)
    with IH have "locked (lck\<lparr>locked := 1\<rparr>) = 0" by blast
    then show False by simp
  qed
qed

lemma spin_until_set_held: "locked lck \<noteq> 0 \<Longrightarrow> spin_until_set lck = None"
  using spin_until_set_Some by (cases "spin_until_set lck") auto

lemma spinlock_acquire_eq:
  "spinlock_acquire i (d, lck) =
     (if locked lck = 0 then Some (True, lck\<lparr>locked := 1, cpu := i\<rparr>) else None)"
  by (simp add: spinlock_acquire_def spin_until_set_free spin_until_set_held)

lemma lock_release_run:
  assumes "pcs s i = Critical" "cpu (lock s) = i"
  shows "lock_step\<^sup>*\<^sup>* s (s\<lparr>lock := (lock s)\<lparr>cpu := 0, locked := 0\<rparr>, pcs := (pcs s)(i := Idle)\<rparr>)"
proof -
  let ?s1 = "s\<lparr>pcs := (pcs s)(i := Releasing)\<rparr>"
  let ?s2 = "?s1\<lparr>lock := (lock ?s1)\<lparr>cpu := 0\<rparr>, pcs := (pcs ?s1)(i := Clearing)\<rparr>"
  let ?s3 = "?s2\<lparr>lock := (lock ?s2)\<lparr>locked := 0\<rparr>, pcs := (pcs ?s2)(i := Idle)\<rparr>"
  have "lock_step s ?s1" using assms by (intro lock_step.release) (simp_all add: spinlock_holds_def)
  moreover have "lock_step ?s1 ?s2" by (intro lock_step.clear_cpu) simp
  moreover have "lock_step ?s2 ?s3" by (intro lock_step.unlock) simp
  ultimately have "lock_step\<^sup>*\<^sup>* s ?s3" by (meson converse_rtranclp_into_rtranclp rtranclp.rtrancl_refl)
  then show ?thesis by (cases s) simp
qed

lemma lock_acquire_run:
  assumes "pcs s i = Idle" "locked (lock s) = 0"
  shows "lock_step\<^sup>*\<^sup>* s (s\<lparr>lock := (lock s)\<lparr>locked := 1, cpu := i\<rparr>, pcs := (pcs s)(i := Critical),
                         daif := (daif s)(i := True)\<rparr>)"
proof -
  let ?s1 = "s\<lparr>pcs := (pcs s)(i := Spinning), daif := (daif s)(i := True)\<rparr>"
  let ?s2 = "?s1\<lparr>lock := (lock ?s1)\<lparr>locked := 1\<rparr>, pcs := (pcs ?s1)(i := Owned)\<rparr>"
  let ?s3 = "?s2\<lparr>lock := (lock ?s2)\<lparr>cpu := i\<rparr>, pcs := (pcs ?s2)(i := Critical)\<rparr>"
  have "lock_step s ?s1" using assms by (intro lock_step.enter)
  moreover have "lock_step ?s1 ?s2" using assms by (intro lock_step.take) (simp_all add: test_and_set_def)
  moreover have "lock_step ?s2 ?s3" by (intro lock_step.set_cpu) simp
  ultimately have "lock_step\<^sup>*\<^sup>* s ?s3" by (meson converse_rtranclp_into_rtranclp rtranclp.rtrancl_refl)
  then show ?thesis by (cases s) simp
qed

section \<open>Properties\<close>

text \<open>C24: In every state the cores can reach, at most one of them is between its successful test-and-set
  and its atomic clear, and every core inside its critical section is the recorded holder, so
  its \<^verbatim>\<open>spinlock_release\<close> returns 0 and leaves the lock free.\<close>

theorem spinlock_mutual_exclusion:
  assumes "reach lock_boot lock_step s"
  shows "(\<forall>i j. holding (pcs s i) \<and> holding (pcs s j) \<longrightarrow> i = j) \<and>
         (\<forall>i d. pcs s i = Critical \<longrightarrow>
            fst (spinlock_release i (d, lock s)) = 0 \<and>
            locked (snd (snd (spinlock_release i (d, lock s)))) = 0)"
  using lock_invD(2,3) [OF spin.reach_inv [OF assms]]
  by (simp add: spinlock_release_def spinlock_holds_def)

lemma reach_held_sys: "reach lock_boot lock_step held_sys"
  unfolding held_sys_def
  by (rule reach_run [OF lock_acquire_run])
     (auto intro!: reach_init simp: lock_boot_def idle_sys_def spinlock_init_def)

theorem spinlock_mutual_exclusion_witness:
  "fst (spinlock_release 2 (True, lock held_sys)) = 0"
  using spinlock_mutual_exclusion [OF reach_held_sys]
  by (simp add: held_sys_def)

text \<open>The interleaved system runs the functions of the source: when a core is idle and its
  \<^verbatim>\<open>spinlock_acquire\<close> returns on the current lock, the system can take it to its critical section
  with exactly the resulting lock and interrupt mask; when it then calls \<^verbatim>\<open>spinlock_release\<close> and
  the call returns 0, the system can take it back to idle with the resulting lock.\<close>

lemma lock_steps_run_functions:
  "(pcs s i = Idle \<longrightarrow> spinlock_acquire i (daif s i, lock s) = Some (d, lk) \<longrightarrow>
      lock_step\<^sup>*\<^sup>* s (s\<lparr>lock := lk, pcs := (pcs s)(i := Critical), daif := (daif s)(i := d)\<rparr>)) \<and>
   (pcs s i = Critical \<longrightarrow> spinlock_release i (daif s i, lock s) = (0, d, lk) \<longrightarrow>
      lock_step\<^sup>*\<^sup>* s (s\<lparr>lock := lk, pcs := (pcs s)(i := Idle), daif := (daif s)(i := d)\<rparr>))"
proof (intro conjI impI)
  assume "pcs s i = Idle" "spinlock_acquire i (daif s i, lock s) = Some (d, lk)"
  then show "lock_step\<^sup>*\<^sup>* s (s\<lparr>lock := lk, pcs := (pcs s)(i := Critical), daif := (daif s)(i := d)\<rparr>)"
    using lock_acquire_run by (auto simp: spinlock_acquire_eq split: if_splits)
next
  assume c: "pcs s i = Critical" and r: "spinlock_release i (daif s i, lock s) = (0, d, lk)"
  then have "cpu (lock s) = i" and lk: "lk = (lock s)\<lparr>cpu := 0, locked := 0\<rparr>" and d: "d = daif s i"
    by (auto simp: spinlock_release_def spinlock_holds_def split: if_splits)
  with c have "lock_step\<^sup>*\<^sup>* s (s\<lparr>lock := lk, pcs := (pcs s)(i := Idle)\<rparr>)"
    using lock_release_run by simp
  then show "lock_step\<^sup>*\<^sup>* s (s\<lparr>lock := lk, pcs := (pcs s)(i := Idle), daif := (daif s)(i := d)\<rparr>)"
    unfolding d fun_upd_triv by simp
qed

text \<open>C31: On one core, \<^verbatim>\<open>spinlock_acquire\<close> returns exactly when the lock is free, then holding the
  lock with interrupts masked; a second \<^verbatim>\<open>spinlock_acquire\<close> before the release never returns, and
  the release returns 0, frees the lock and leaves the interrupts masked.\<close>

theorem spinlock_acquire_release:
  "case spinlock_acquire i (d, lck) of
     None \<Rightarrow> locked lck \<noteq> 0
   | Some (d1, lk1) \<Rightarrow>
       locked lck = 0 \<and> d1 \<and> locked lk1 = 1 \<and> spinlock_holds i lk1 \<and>
       spinlock_acquire j (d', lk1) = None \<and>
       (case spinlock_release i (d1, lk1) of (r, d2, lk2) \<Rightarrow> r = 0 \<and> d2 \<and> lk2 = lck\<lparr>cpu := 0\<rparr>)"
  by (simp add: spinlock_acquire_eq spinlock_release_def spinlock_holds_def)

text \<open>After any successful release, core 0 counts as the holder of the free lock: its
  \<^verbatim>\<open>spinlock_holds\<close> is true and its \<^verbatim>\<open>spinlock_release\<close> of the lock it never took returns 0, while
  every other core is refused with -1.\<close>

theorem release_leaves_core0_holder:
  assumes "spinlock_release i (d, lck) = (0, d', lk)"
  shows "locked lk = 0 \<and> spinlock_holds 0 lk \<and> fst (spinlock_release 0 (d0, lk)) = 0 \<and>
         (j \<noteq> 0 \<longrightarrow> fst (spinlock_release j (d1, lk)) = -1)"
  using assms by (auto simp: spinlock_release_def spinlock_holds_def split: if_splits)

theorem release_leaves_core0_holder_witness:
  "spinlock_holds 0 ((lock held_sys)\<lparr>cpu := 0, locked := 0\<rparr>)"
  using release_leaves_core0_holder [of 2 True "lock held_sys" True "(lock held_sys)\<lparr>cpu := 0, locked := 0\<rparr>"]
  by (simp add: held_sys_def spinlock_release_def spinlock_holds_def)

end
