(* ===== verification/Process.thy ===== *)
theory Process
  imports Kalloc Strings Spinlock
begin

text \<open>
  Processes and scheduling: \<^verbatim>\<open>kernel/process.c\<close> and \<^verbatim>\<open>switch_to\<close>/\<^verbatim>\<open>get_current_process\<close> of
  \<^verbatim>\<open>kernel/user_context.S\<close>, \<^verbatim>\<open>user_start\<close> of \<^verbatim>\<open>kernel/user.S\<close>.

  \<open>kernel\<close> extends the allocator's state with the process array and the registers of the core:
  the callee-saved context, \<^verbatim>\<open>tpidr_el1\<close> (the current process), \<^verbatim>\<open>ttbr0_el1\<close>, \<^verbatim>\<open>elr_el1\<close> and
  \<^verbatim>\<open>sp_el0\<close>. A \<^verbatim>\<open>struct process *\<close> is the index of its slot in \<^verbatim>\<open>process_array\<close>, and \<^verbatim>\<open>NULL\<close> is \<open>None\<close>
  (\<^verbatim>\<open>parent\<close> is the only process pointer that can be null). The array is a kernel global outside
  the page frames, so a pointer to one of its fields is a \<open>Var\<close> for \<open>kfree\<close>.

  \<^verbatim>\<open>&(proc->stack_frame[PageSize-1])\<close> indexes an array of \<^verbatim>\<open>struct PageFrame\<close>, whose size is 4096.
\<close>

section \<open>State\<close>

definition PROCCNT :: nat where "PROCCNT = 64"

datatype ProcesState = FREE | RUNNING | RUNNABLE | WAITING | KILLED

record cpu_context =
  x19 :: u64  x20 :: u64  x21 :: u64  x22 :: u64  x23 :: u64
  x24 :: u64  x25 :: u64  x26 :: u64  x27 :: u64  x28 :: u64
  fp :: u64
  lr :: u64
  sp :: u64

record process = cpu_context +
  stack_frame :: u64
  trap_frame :: u64
  parent :: "nat option"
  pagetable :: u64
  state :: ProcesState
  pid :: u8
  wait_on :: u64

record kernel = kmem +
  process_array :: "process list"
  tpidr_el1 :: nat
  regs :: cpu_context
  ttbr0_el1 :: u64
  elr_el1 :: u64
  sp_el0 :: u64

definition get_current_process :: "'a kernel_scheme \<Rightarrow> nat" where
  "get_current_process s = tpidr_el1 s"

definition proc :: "nat \<Rightarrow> 'a kernel_scheme \<Rightarrow> process" where
  "proc i s = process_array s ! i"

definition upd_proc :: "nat \<Rightarrow> (process \<Rightarrow> process) \<Rightarrow> 'a kernel_scheme \<Rightarrow> 'a kernel_scheme" where
  "upd_proc i f s = s\<lparr>process_array := (process_array s)[i := f (process_array s ! i)]\<rparr>"

section \<open>Operations\<close>

definition free_registers :: "process \<Rightarrow> process" where
  "free_registers p = p\<lparr>x19 := 0, x20 := 0, x21 := 0, x22 := 0, x23 := 0, x24 := 0, x25 := 0,
     x26 := 0, x27 := 0, x28 := 0, fp := 0, lr := 0, sp := 0\<rparr>"

text \<open>
  The inner loop of \<^verbatim>\<open>getpid\<close>: \<open>Some p\<close> is its \<^verbatim>\<open>return\<close>, \<open>None\<close> its \<^verbatim>\<open>break\<close>.
\<close>

function getpid_scan :: "nat \<Rightarrow> u8 \<Rightarrow> process list \<Rightarrow> u8 option" where
  "getpid_scan i p procs =
     (if i < PROCCNT
      then (if pid (procs ! i) = p then None
            else if i = PROCCNT - 1 then Some p
            else getpid_scan (i + 1) p procs)
      else None)"
  by pat_completeness auto
termination
  by (relation "measure (\<lambda>(i, _). PROCCNT - i)") auto

declare getpid_scan.simps [simp del]

partial_function (option) getpid_loop :: "u8 \<Rightarrow> process list \<Rightarrow> u8 option" where
  "getpid_loop p procs =
     (case getpid_scan 0 p procs of
        Some q \<Rightarrow> Some q
      | None \<Rightarrow> getpid_loop (p + 1) procs)"

declare getpid_loop.simps [code]

definition getpid :: "'a kernel_scheme \<Rightarrow> u8 option" where
  "getpid s = getpid_loop 1 (process_array s)"

definition stack_top :: "u64 \<Rightarrow> u64" where
  "stack_top frame = frame + (PageSize - 1) * 4096"

definition load_pagetable :: "u64 \<Rightarrow> 'a kernel_scheme \<Rightarrow> 'a kernel_scheme" where
  "load_pagetable pt s = s\<lparr>ttbr0_el1 := pt\<rparr>"

definition user_start :: "u64 \<Rightarrow> u64 \<Rightarrow> 'a kernel_scheme \<Rightarrow> 'a kernel_scheme" where
  "user_start program stack_address s = s\<lparr>elr_el1 := program, sp_el0 := stack_address\<rparr>"

text \<open>
  \<^verbatim>\<open>create_first_process\<close> ignores the results of \<^verbatim>\<open>kalloc\<close>: \<open>junk\<close> is what the uninitialised
  local \<^verbatim>\<open>trap_frame\<close> holds when the allocation fails.
\<close>

definition create_first_process :: "u64 \<Rightarrow> u64 \<Rightarrow> 'a kernel_scheme \<Rightarrow> 'a kernel_scheme" where
  "create_first_process user_program junk s =
     (let s = upd_proc 0 (\<lambda>p. p\<lparr>state := WAITING\<rparr>) s;
          (_, s) = kalloc s;
          (r, s) = kalloc s;
          tf = (case r of Some f \<Rightarrow> f | None \<Rightarrow> junk);
          s = upd_proc 0 free_registers s;
          s = upd_proc 0 (\<lambda>p. p\<lparr>sp := stack_top (stack_frame p)\<rparr>) s;
          s = upd_proc 0 (\<lambda>p. p\<lparr>trap_frame := tf\<rparr>) s;
          s = upd_proc 0 (\<lambda>p. p\<lparr>state := RUNNABLE\<rparr>) s;
          s = upd_proc 0 (\<lambda>p. p\<lparr>pid := 0\<rparr>) s;
          s = load_pagetable (pagetable (proc 0 s)) s;
          s = s\<lparr>tpidr_el1 := 0\<rparr>
      in user_start user_program (sp (proc 0 s)) s)"

text \<open>
  The search loop of \<^verbatim>\<open>kill_process\<close>: \<open>Inl r\<close> is \<^verbatim>\<open>return r\<close>, \<open>Inr i\<close> leaves the loop with
  \<^verbatim>\<open>proc\<close> at slot \<open>i\<close>. The condition \<^verbatim>\<open>i = PROCCNT - 1\<close> is an assignment.
\<close>

function kill_scan :: "nat \<Rightarrow> nat \<Rightarrow> u8 \<Rightarrow> 'a kernel_scheme \<Rightarrow> (int + nat) \<times> 'a kernel_scheme" where
  "kill_scan i pr p s =
     (if i < PROCCNT
      then (let pr = i
            in if pid (proc pr s) = p
               then (Inr pr, upd_proc pr (\<lambda>p. p\<lparr>state := KILLED\<rparr>) s)
               else (let i = PROCCNT - 1
                     in if i \<noteq> 0 then (Inl (-1), s) else kill_scan (i + 1) pr p s))
      else (Inr pr, s))"
  by pat_completeness auto
termination
  by (relation "measure (\<lambda>(i, _). PROCCNT - i)") (auto simp: PROCCNT_def)

declare kill_scan.simps [simp del]

definition kill_process :: "u8 \<Rightarrow> 'a kernel_scheme \<Rightarrow> int \<times> 'a kernel_scheme" where
  "kill_process p s =
     (case kill_scan 0 0 p s of
        (Inl r, s) \<Rightarrow> (r, s)
      | (Inr i, s) \<Rightarrow>
          (let s = upd_proc i (\<lambda>p. p\<lparr>pid := 0\<rparr>) s;
               s = upd_proc i free_registers s;
               s = kfree (Var (stack_frame (proc i s))) s;
               s = kfree (Var (trap_frame (proc i s))) s;
               s = upd_proc i (\<lambda>p. p\<lparr>state := FREE\<rparr>) s
           in (0, s)))"

text \<open>
  \<^verbatim>\<open>switch_to(prev, next)\<close> stores the callee-saved registers, the frame pointer, the link register and
  the stack pointer in \<^verbatim>\<open>prev\<close>, loads those of \<^verbatim>\<open>next\<close>, and makes \<^verbatim>\<open>next\<close> and its page table current.
\<close>

definition save_context :: "cpu_context \<Rightarrow> process \<Rightarrow> process" where
  "save_context c p = p\<lparr>x19 := x19 c, x20 := x20 c, x21 := x21 c, x22 := x22 c, x23 := x23 c,
     x24 := x24 c, x25 := x25 c, x26 := x26 c, x27 := x27 c, x28 := x28 c, fp := fp c, lr := lr c,
     sp := sp c\<rparr>"

definition context_of :: "process \<Rightarrow> cpu_context" where
  "context_of p = \<lparr>x19 = x19 p, x20 = x20 p, x21 = x21 p, x22 = x22 p, x23 = x23 p, x24 = x24 p,
     x25 = x25 p, x26 = x26 p, x27 = x27 p, x28 = x28 p, fp = fp p, lr = lr p, sp = sp p\<rparr>"

definition switch_to :: "nat \<Rightarrow> nat \<Rightarrow> 'a kernel_scheme \<Rightarrow> 'a kernel_scheme" where
  "switch_to prev nxt s =
     (let s = upd_proc prev (save_context (regs s)) s;
          s = s\<lparr>regs := context_of (proc nxt s)\<rparr>;
          s = s\<lparr>ttbr0_el1 := pagetable (proc nxt s)\<rparr>
      in s\<lparr>tpidr_el1 := nxt\<rparr>)"

text \<open>The inner loop of \<^verbatim>\<open>scheduler\<close>: the first runnable slot at or after \<open>i\<close>.\<close>

function scheduler_scan :: "nat \<Rightarrow> process list \<Rightarrow> nat option" where
  "scheduler_scan i procs =
     (if i < PROCCNT
      then (if state (procs ! i) = RUNNABLE then Some i else scheduler_scan (i + 1) procs)
      else None)"
  by pat_completeness auto
termination
  by (relation "measure (\<lambda>(i, _). PROCCNT - i)") auto

declare scheduler_scan.simps [simp del]

partial_function (option) scheduler_loop :: "nat \<Rightarrow> process list \<Rightarrow> nat option" where
  "scheduler_loop nxt procs =
     (case scheduler_scan nxt procs of
        Some i \<Rightarrow> Some i
      | None \<Rightarrow> scheduler_loop 0 procs)"

declare scheduler_loop.simps [code]

definition scheduler :: "'a kernel_scheme \<Rightarrow> 'a kernel_scheme option" where
  "scheduler s =
     (let curr_proc = get_current_process s;
          s = upd_proc curr_proc (\<lambda>p. p\<lparr>state := RUNNABLE\<rparr>) s
      in case scheduler_loop (curr_proc + 1) (process_array s) of
           None \<Rightarrow> None
         | Some next_proc \<Rightarrow> Some (switch_to curr_proc next_proc s))"

text \<open>
  \<^verbatim>\<open>sleep\<close> also releases the spin lock; \<open>cpu_id\<close> is the calling core and \<open>spin_lk\<close> its interrupt
  mask with the lock.
\<close>

definition sleep ::
  "u8 \<Rightarrow> u64 \<Rightarrow> bool \<times> SpinLock \<Rightarrow> 'a kernel_scheme \<Rightarrow> (bool \<times> SpinLock) \<times> 'a kernel_scheme" where
  "sleep cpu_id lk spin_lk s =
     (let p = get_current_process s;
          s = upd_proc p (\<lambda>p. p\<lparr>state := WAITING\<rparr>) s;
          s = upd_proc p (\<lambda>p. p\<lparr>wait_on := lk\<rparr>) s;
          (_, spin_lk) = spinlock_release cpu_id spin_lk
      in (spin_lk, s))"

definition wake :: "u64 \<Rightarrow> process \<Rightarrow> process" where
  "wake lk p = (if state p = WAITING \<and> wait_on p = lk then p\<lparr>state := RUNNABLE, wait_on := 0\<rparr> else p)"

function wakeup_loop :: "nat \<Rightarrow> u64 \<Rightarrow> 'a kernel_scheme \<Rightarrow> 'a kernel_scheme" where
  "wakeup_loop i lk s =
     (if i < PROCCNT then wakeup_loop (i + 1) lk (upd_proc i (wake lk) s) else s)"
  by pat_completeness auto
termination
  by (relation "measure (\<lambda>(i, _). PROCCNT - i)") auto

declare wakeup_loop.simps [simp del]

definition wakeup :: "u64 \<Rightarrow> 'a kernel_scheme \<Rightarrow> 'a kernel_scheme" where
  "wakeup lk s = wakeup_loop 0 lk s"

text \<open>The first loop of \<^verbatim>\<open>sys_fork\<close>: \<open>None\<close> is its \<^verbatim>\<open>return -1\<close>.\<close>

function fork_scan :: "nat \<Rightarrow> process list \<Rightarrow> nat option" where
  "fork_scan i procs =
     (if i < PROCCNT
      then (if state (procs ! i) = FREE then Some i
            else if i = PROCCNT - 1 then None
            else fork_scan (i + 1) procs)
      else None)"
  by pat_completeness auto
termination
  by (relation "measure (\<lambda>(i, _). PROCCNT - i)") auto

declare fork_scan.simps [simp del]

text \<open>The register copy of \<^verbatim>\<open>sys_fork\<close> (lines 215--226); \<^verbatim>\<open>sp\<close> is not among them.\<close>

definition copy_registers :: "process \<Rightarrow> process \<Rightarrow> process" where
  "copy_registers caller p = p\<lparr>x19 := x19 caller, x20 := x20 caller, x21 := x21 caller,
     x22 := x22 caller, x23 := x23 caller, x24 := x24 caller, x25 := x25 caller, x26 := x26 caller,
     x27 := x27 caller, x28 := x28 caller, fp := fp caller, lr := lr caller\<rparr>"

text \<open>
  \<^verbatim>\<open>sys_fork\<close>. The first component of the result is what it returns: \<open>Some r\<close> for \<^verbatim>\<open>return r\<close>, \<open>None\<close>
  when control reaches the end of the function, which has no \<^verbatim>\<open>return\<close>. The outer \<open>option\<close> is
  the search for a fresh pid. \<open>fork_child\<close> is the part after both allocations.
\<close>

definition fork_child ::
  "nat \<Rightarrow> nat \<Rightarrow> u64 \<Rightarrow> 'a kernel_scheme \<Rightarrow> (int option \<times> 'a kernel_scheme) option" where
  "fork_child i caller tf s =
     (let s = upd_proc i (\<lambda>p. p\<lparr>trap_frame := tf\<rparr>) s;
          s = upd_proc i free_registers s;
          s = upd_proc i (\<lambda>p. p\<lparr>sp := stack_top (stack_frame p)\<rparr>) s;
          s = s\<lparr>mem := strcpy (stack_frame (proc caller s)) (stack_frame (proc i s)) PageSize (mem s)\<rparr>;
          s = upd_proc i (\<lambda>p. p\<lparr>trap_frame := tf\<rparr>) s;
          s = upd_proc i (copy_registers (proc caller s)) s
      in case getpid s of
           None \<Rightarrow> None
         | Some q \<Rightarrow>
             (let s = upd_proc i (\<lambda>p. p\<lparr>pid := q\<rparr>) s;
                  s = upd_proc i (\<lambda>p. p\<lparr>parent := Some caller\<rparr>) s;
                  s = upd_proc i (\<lambda>p. p\<lparr>state := RUNNABLE\<rparr>) s
              in Some (None, s)))"

definition sys_fork :: "'a kernel_scheme \<Rightarrow> (int option \<times> 'a kernel_scheme) option" where
  "sys_fork s =
     (let caller = get_current_process s
      in case fork_scan 0 (process_array s) of
           None \<Rightarrow> Some (Some (-1), s)
         | Some i \<Rightarrow>
             (let s = upd_proc i (\<lambda>p. p\<lparr>state := WAITING\<rparr>) s
              in case kalloc s of
                   (None, s) \<Rightarrow> Some (Some (-1), upd_proc i (\<lambda>p. p\<lparr>state := FREE\<rparr>) s)
                 | (Some sf, s) \<Rightarrow>
                     (let s = upd_proc i (\<lambda>p. p\<lparr>stack_frame := sf\<rparr>) s
                      in case kalloc s of
                           (None, s) \<Rightarrow>
                             (let s = kfree (Var sf) s;
                                  s = upd_proc i (\<lambda>p. p\<lparr>state := FREE\<rparr>) s;
                                  s = upd_proc i (\<lambda>p. p\<lparr>stack_frame := 0\<rparr>) s
                              in Some (Some (-1), s))
                         | (Some tf, s) \<Rightarrow> fork_child i caller tf s)))"

text \<open>\<^verbatim>\<open>sys_execve\<close>: its body is a comment, so it does nothing and returns what the return register holds.\<close>

definition sys_execve :: "u64 \<Rightarrow> u64 \<Rightarrow> int \<Rightarrow> 'a kernel_scheme \<Rightarrow> int \<times> 'a kernel_scheme" where
  "sys_execve path argv junk s = (junk, s)"

section \<open>Specification\<close>

text \<open>
  \<open>kernel_wf\<close>: the process array has its declared length and the current process is one of its
  slots. \<open>turn c k\<close> is how many slots a round-robin scan passes over from slot \<open>c\<close> before it
  comes to \<open>k\<close>; the scan reaches \<open>c\<close> itself last.
\<close>

definition kernel_wf :: "'a kernel_scheme \<Rightarrow> bool" where
  "kernel_wf s \<longleftrightarrow> length (process_array s) = PROCCNT \<and> tpidr_el1 s < PROCCNT"

definition turn :: "nat \<Rightarrow> nat \<Rightarrow> nat" where
  "turn c k = (if c < k then k - c - 1 else k + PROCCNT - c - 1)"

section \<open>Lemmas\<close>

lemma proc_upd_proc [simp]:
  "i < length (process_array s) \<Longrightarrow> proc i (upd_proc i f s) = f (proc i s)"
  "i \<noteq> j \<Longrightarrow> proc j (upd_proc i f s) = proc j s"
  by (simp_all add: proc_def upd_proc_def)

lemma upd_proc_simps [simp]:
  "mem (upd_proc i f s) = mem s"
  "page_frame_linked_list (upd_proc i f s) = page_frame_linked_list s"
  "length (process_array (upd_proc i f s)) = length (process_array s)"
  "tpidr_el1 (upd_proc i f s) = tpidr_el1 s"
  "regs (upd_proc i f s) = regs s"
  "ttbr0_el1 (upd_proc i f s) = ttbr0_el1 s"
  "elr_el1 (upd_proc i f s) = elr_el1 s"
  "sp_el0 (upd_proc i f s) = sp_el0 s"
  by (simp_all add: upd_proc_def)

lemma upd_proc_fuse [simp]:
  "i < length (process_array s) \<Longrightarrow> upd_proc i f (upd_proc i g s) = upd_proc i (\<lambda>p. f (g p)) s"
  by (simp add: upd_proc_def)

lemma set_state_same [simp]: "state p = x \<Longrightarrow> p\<lparr>state := x\<rparr> = p"
  by (cases p) simp

lemma upd_proc_same: "f (proc i s) = proc i s \<Longrightarrow> upd_proc i f s = s"
  by (simp add: upd_proc_def proc_def)

lemma kalloc_upd_proc [simp]:
  "kalloc (upd_proc i f s) = map_prod id (upd_proc i f) (kalloc s)"
  by (simp add: kalloc_def upd_proc_def Let_def)

lemma kfree_upd_proc [simp]: "kfree (Var p) (upd_proc i f s) = upd_proc i f (kfree (Var p) s)"
  by (simp add: kfree_def upd_proc_def Let_def)

lemma frames_upd_proc [simp]: "frames (upd_proc i f s) fs = frames s fs"
  by (simp add: frames_def)

lemma kalloc_procs [simp]:
  "process_array (snd (kalloc s)) = process_array s"
  "tpidr_el1 (snd (kalloc s)) = tpidr_el1 s"
  "regs (snd (kalloc s)) = regs s"
  "ttbr0_el1 (snd (kalloc s)) = ttbr0_el1 s"
  by (simp_all add: kalloc_def Let_def)

lemma kfree_procs [simp]:
  "process_array (kfree p s) = process_array s"
  "tpidr_el1 (kfree p s) = tpidr_el1 s"
  "regs (kfree p s) = regs s"
  "ttbr0_el1 (kfree p s) = ttbr0_el1 s"
  by (simp_all add: kfree_def Let_def)

subsection \<open>The scans\<close>

lemma scheduler_scan_eq:
  "scheduler_scan i procs = find (\<lambda>j. state (procs ! j) = RUNNABLE) [i..<PROCCNT]"
  by (induction i procs rule: scheduler_scan.induct)
     (subst scheduler_scan.simps, auto simp: upt_conv_Cons)

lemma fork_scan_eq: "fork_scan i procs = find (\<lambda>j. state (procs ! j) = FREE) [i..<PROCCNT]"
proof (induction i procs rule: fork_scan.induct)
  case (1 i procs)
  then show ?case by (subst fork_scan.simps) (cases "i = PROCCNT - 1"; auto simp: upt_conv_Cons)
qed

lemma getpid_scan_eq:
  "i < PROCCNT \<Longrightarrow> getpid_scan i p procs = (if \<exists>j\<in>{i..<PROCCNT}. pid (procs ! j) = p then None else Some p)"
proof (induction i p procs rule: getpid_scan.induct)
  case (1 i p procs)
  have "{i..<PROCCNT} = insert i {i + 1..<PROCCNT}" using "1.prems" by auto
  with 1 show ?case by (subst getpid_scan.simps) (cases "i = PROCCNT - 1"; auto)
qed

lemma find_upt_Some:
  "find P [i..<n] = Some k \<longleftrightarrow> i \<le> k \<and> k < n \<and> P k \<and> (\<forall>j. i \<le> j \<and> j < k \<longrightarrow> \<not> P j)"
proof -
  have "find P [i..<n] = Some k \<longleftrightarrow> (\<exists>m<n - i. P (i + m) \<and> k = i + m \<and> (\<forall>j<m. \<not> P (i + j)))"
    unfolding find_Some_iff by (intro ex_cong1) (auto simp: add.commute)
  also have "\<dots> \<longleftrightarrow> i \<le> k \<and> k < n \<and> P k \<and> (\<forall>j. i \<le> j \<and> j < k \<longrightarrow> \<not> P j)"
  proof (intro iffI; elim exE conjE)
    fix m assume "m < n - i" "P (i + m)" "k = i + m" "\<forall>j<m. \<not> P (i + j)"
    then show "i \<le> k \<and> k < n \<and> P k \<and> (\<forall>j. i \<le> j \<and> j < k \<longrightarrow> \<not> P j)"
      by (auto simp: le_iff_add)
  next
    assume "i \<le> k" "k < n" "P k" "\<forall>j. i \<le> j \<and> j < k \<longrightarrow> \<not> P j"
    then show "\<exists>m<n - i. P (i + m) \<and> k = i + m \<and> (\<forall>j<m. \<not> P (i + j))"
      by (intro exI [of _ "k - i"]) auto
  qed
  finally show ?thesis .
qed

lemma find_upt_None: "find P [i..<n] = None \<longleftrightarrow> (\<forall>j. i \<le> j \<and> j < n \<longrightarrow> \<not> P j)"
  by (auto simp: find_None_iff)

subsection \<open>Scheduling\<close>

lemma context_of_save_context [simp]: "context_of (save_context c p) = c"
  by (cases c) (simp add: context_of_def save_context_def)

lemma save_context_of [simp]: "save_context (context_of p) p = p"
  by (simp add: context_of_def save_context_def)

lemma save_context_other [simp]:
  "stack_frame (save_context c p) = stack_frame p" "trap_frame (save_context c p) = trap_frame p"
  "parent (save_context c p) = parent p" "pagetable (save_context c p) = pagetable p"
  "state (save_context c p) = state p" "pid (save_context c p) = pid p"
  "wait_on (save_context c p) = wait_on p"
  by (simp_all add: save_context_def)

lemma scheduler_loop_turn:
  assumes "c < PROCCNT" "state (procs ! c) = RUNNABLE"
  obtains k where "scheduler_loop (c + 1) procs = Some k" "k < PROCCNT" "state (procs ! k) = RUNNABLE"
    "\<And>j. j < PROCCNT \<Longrightarrow> state (procs ! j) = RUNNABLE \<Longrightarrow> turn c k \<le> turn c j"
proof (cases "scheduler_scan (c + 1) procs")
  case (Some k)
  then have "scheduler_loop (c + 1) procs = Some k" by (subst scheduler_loop.simps) simp
  moreover have "c + 1 \<le> k" "k < PROCCNT" "state (procs ! k) = RUNNABLE"
    "\<forall>j. c + 1 \<le> j \<and> j < k \<longrightarrow> state (procs ! j) \<noteq> RUNNABLE"
    using Some unfolding scheduler_scan_eq find_upt_Some by blast+
  moreover from this have "turn c k \<le> turn c j" if "j < PROCCNT" "state (procs ! j) = RUNNABLE" for j
    using that assms(1) by (cases "c < j"; cases "j < k") (auto simp: turn_def)
  ultimately show ?thesis by (intro that)
next
  case None
  then have later: "\<not> c < j" if "j < PROCCNT" "state (procs ! j) = RUNNABLE" for j
    using that unfolding scheduler_scan_eq find_upt_None by auto
  have "scheduler_scan 0 procs \<noteq> None"
    using assms unfolding scheduler_scan_eq find_upt_None by auto
  then obtain k where k: "scheduler_scan 0 procs = Some k" by auto
  have "scheduler_loop (c + 1) procs = scheduler_loop 0 procs"
    unfolding scheduler_loop.simps [of "c + 1"] None by simp
  also have "\<dots> = Some k" by (subst scheduler_loop.simps) (simp add: k)
  finally have "scheduler_loop (c + 1) procs = Some k" .
  moreover have "k < PROCCNT" "state (procs ! k) = RUNNABLE"
    "\<forall>j. j < k \<longrightarrow> state (procs ! j) \<noteq> RUNNABLE"
    using k unfolding scheduler_scan_eq find_upt_Some by auto
  moreover from this have "turn c k \<le> turn c j" if "j < PROCCNT" "state (procs ! j) = RUNNABLE" for j
    using that later [OF that] later [of k] by (cases "j < k") (auto simp: turn_def)
  ultimately show ?thesis by (intro that)
qed

definition round_robin :: "'a kernel_scheme \<Rightarrow> nat \<Rightarrow> 'a kernel_scheme \<Rightarrow> bool" where
  "round_robin s k s' \<longleftrightarrow>
     (let c = tpidr_el1 s in
      k < PROCCNT \<and> (k = c \<or> state (proc k s) = RUNNABLE) \<and>
      (\<forall>j<PROCCNT. state (proc j s) = RUNNABLE \<longrightarrow> turn c k \<le> turn c j) \<and>
      proc c s' = save_context (regs s) (proc c s)\<lparr>state := RUNNABLE\<rparr> \<and>
      (\<forall>j. j \<noteq> c \<longrightarrow> proc j s' = proc j s) \<and>
      tpidr_el1 s' = k \<and> ttbr0_el1 s' = pagetable (proc k s) \<and>
      regs s' = (if k = c then regs s else context_of (proc k s)) \<and>
      mem s' = mem s \<and> page_frame_linked_list s' = page_frame_linked_list s \<and> kernel_wf s')"

lemma scheduler_round_robin_ex:
  assumes "kernel_wf s"
  shows "\<exists>k s'. scheduler s = Some s' \<and> round_robin s k s'"
proof -
  define c where "c = tpidr_el1 s"
  define s1 where "s1 = upd_proc c (\<lambda>p. p\<lparr>state := RUNNABLE\<rparr>) s"
  have c: "c < PROCCNT" "length (process_array s) = PROCCNT"
    using assms by (simp_all add: kernel_wf_def c_def)
  have st: "state (process_array s1 ! j) = (if j = c then RUNNABLE else state (proc j s))" for j
    using c by (cases "c = j") (simp_all add: s1_def flip: proc_def)
  from scheduler_loop_turn [OF c(1), of "process_array s1"] st obtain k where
    k: "scheduler_loop (c + 1) (process_array s1) = Some k" "k < PROCCNT"
      "state (process_array s1 ! k) = RUNNABLE"
      "\<And>j. j < PROCCNT \<Longrightarrow> state (process_array s1 ! j) = RUNNABLE \<Longrightarrow> turn c k \<le> turn c j"
    by metis
  have "scheduler s = Some (switch_to c k s1)"
    using k(1) by (simp add: scheduler_def get_current_process_def c_def [symmetric] s1_def Let_def)
  moreover have "round_robin s k (switch_to c k s1)"
    unfolding round_robin_def Let_def c_def [symmetric]
  proof (intro conjI allI impI)
    show "k < PROCCNT" by (rule k)
    show "k = c \<or> state (proc k s) = RUNNABLE" using k(3) st by (auto split: if_splits)
    show "turn c k \<le> turn c j" if "j < PROCCNT" "state (proc j s) = RUNNABLE" for j
      using that by (intro k(4)) (simp_all add: st)
  qed (use c k(2) in \<open>auto simp: switch_to_def s1_def Let_def kernel_wf_def proc_def upd_proc_def save_context_def
        context_of_def nth_list_update\<close>)
  ultimately show ?thesis by blast
qed

text \<open>
  \<open>scheduled f j\<close>: \<open>f\<close> is a sequence of states after successive calls of \<open>scheduler\<close>. Between two
  calls the current process may change anything except which process is current and the fact
  that \<open>j\<close> is runnable.
\<close>

definition scheduled :: "(nat \<Rightarrow> 'a kernel_scheme) \<Rightarrow> nat \<Rightarrow> bool" where
  "scheduled f j \<longleftrightarrow>
     (\<forall>n. \<exists>t. kernel_wf t \<and> tpidr_el1 t = tpidr_el1 (f n) \<and> state (proc j t) = RUNNABLE \<and>
             scheduler t = Some (f (Suc n)))"

lemma turn_less: "c < PROCCNT \<Longrightarrow> j < PROCCNT \<Longrightarrow> turn c j < PROCCNT"
  by (auto simp: turn_def)

lemma turn_between:
  assumes "c < PROCCNT" "k < PROCCNT" "j < PROCCNT" "turn c k \<le> turn c j" "k \<noteq> j"
  shows "turn k j < turn c j"
  using assms by (auto simp: turn_def split: if_splits)

lemma scheduled_progress:
  assumes "scheduled f j" "j < PROCCNT"
  shows "tpidr_el1 (f (Suc n)) = j \<or> turn (tpidr_el1 (f (Suc n))) j < turn (tpidr_el1 (f n)) j"
proof -
  obtain t where t: "kernel_wf t" "tpidr_el1 t = tpidr_el1 (f n)" "state (proc j t) = RUNNABLE"
    "scheduler t = Some (f (Suc n))"
    using assms(1) unfolding scheduled_def by blast
  obtain k where k: "round_robin t k (f (Suc n))"
    using scheduler_round_robin_ex [OF t(1)] t(4) by auto
  then have "k < PROCCNT" "turn (tpidr_el1 t) k \<le> turn (tpidr_el1 t) j" "tpidr_el1 (f (Suc n)) = k"
    using assms(2) t(3) by (auto simp: round_robin_def Let_def)
  moreover have "tpidr_el1 t < PROCCNT" using t(1) by (simp add: kernel_wf_def)
  ultimately show ?thesis using turn_between [of "tpidr_el1 t" k j] assms(2) t(2) by auto
qed

lemma scheduled_within:
  assumes "scheduled f j" "j < PROCCNT" "turn (tpidr_el1 (f n)) j < m"
  shows "\<exists>k\<le>m. 0 < k \<and> tpidr_el1 (f (n + k)) = j"
  using assms(3)
proof (induction m arbitrary: n)
  case (Suc m)
  show ?case
  proof (cases "tpidr_el1 (f (Suc n)) = j")
    case True
    then show ?thesis by (intro exI [of _ 1]) simp
  next
    case False
    with scheduled_progress [OF assms(1,2), of n] Suc.prems
    have "turn (tpidr_el1 (f (Suc n))) j < m" by simp
    from Suc.IH [OF this] obtain k where "k \<le> m" "tpidr_el1 (f (Suc n + k)) = j" by blast
    then show ?thesis by (intro exI [of _ "Suc k"]) simp
  qed
qed simp

subsection \<open>Process identifiers\<close>

lemma PROCCNT_pos [simp]: "0 < PROCCNT"
  by (simp add: PROCCNT_def)

definition pid_used :: "u8 \<Rightarrow> process list \<Rightarrow> bool" where
  "pid_used p procs \<longleftrightarrow> (\<exists>j<PROCCNT. pid (procs ! j) = p)"

lemma getpid_loop_step:
  "getpid_loop p procs = (if pid_used p procs then getpid_loop (p + 1) procs else Some p)"
  by (subst getpid_loop.simps) (auto simp: getpid_scan_eq pid_used_def Bex_def)

lemma getpid_loop_least:
  assumes "\<not> pid_used q procs" "\<And>r. p \<le> r \<Longrightarrow> r < q \<Longrightarrow> pid_used r procs" "p \<le> q"
  shows "getpid_loop p procs = Some q"
  using assms
proof (induction "unat q - unat p" arbitrary: p)
  case 0
  then have "p = q" by (simp add: word_le_nat_alt word_eq_iff_unsigned [where ?'a = nat])
  with 0 show ?case by (simp add: getpid_loop_step)
next
  case (Suc d)
  then have less: "p < q" by (simp add: word_less_nat_alt)
  then have up: "unat (p + 1) = unat p + 1"
  proof -
    have "unat p + 1 < 256" using less unsigned_less [of q, where ?'a = nat] by (simp add: word_less_nat_alt)
    then show ?thesis by (simp add: unat_word_ariths)
  qed
  have "getpid_loop (p + 1) procs = Some q"
    by (rule Suc.hyps(1)) (use Suc less up in \<open>auto simp: word_le_nat_alt word_less_nat_alt\<close>)
  with Suc.prems less show ?case by (simp add: getpid_loop_step [of p])
qed

lemma unused_pid:
  obtains q where "1 \<le> q" "unat q \<le> PROCCNT + 1" "\<not> pid_used q procs"
    "\<And>r. 1 \<le> r \<Longrightarrow> r < q \<Longrightarrow> pid_used r procs"
proof -
  let ?U = "(\<lambda>j. unat (pid (procs ! j))) ` {..<PROCCNT}"
  have "card ?U \<le> PROCCNT" using card_image_le [of "{..<PROCCNT}"] by auto
  then have "\<not> {1..PROCCNT + 1} \<subseteq> ?U" using card_mono [of ?U "{1..PROCCNT + 1}"] by auto
  then obtain n where n: "n \<in> {1..PROCCNT + 1} - ?U" by blast
  define m where "m = (LEAST n. n \<in> {1..PROCCNT + 1} - ?U)"
  have m: "m \<in> {1..PROCCNT + 1} - ?U" unfolding m_def using n by (rule LeastI)
  have small: "unat (of_nat m :: u8) = m"
    using m by (simp add: PROCCNT_def unat_of_nat take_bit_nat_eq_self)
  show ?thesis
  proof (rule that)
    show "(1 :: u8) \<le> of_nat m" using m small by (simp add: word_le_nat_alt)
    show "unat (of_nat m :: u8) \<le> PROCCNT + 1" using m small by simp
    show "\<not> pid_used (of_nat m) procs"
    proof
      assume "pid_used (of_nat m) procs"
      then obtain j where "j < PROCCNT" "unat (pid (procs ! j)) = m"
        using small unfolding pid_used_def by metis
      with m show False by auto
    qed
    fix r :: u8 assume r: "1 \<le> r" "r < of_nat m"
    then have "unat r < m" "1 \<le> unat r" using small by (simp_all add: word_less_nat_alt word_le_nat_alt)
    with not_less_Least [of "unat r" "\<lambda>n. n \<in> {1..PROCCNT + 1} - ?U", folded m_def] m
    have "unat r \<in> ?U" by auto
    then show "pid_used r procs"
      by (auto simp: pid_used_def word_eq_iff_unsigned [where ?'a = nat])
  qed
qed

lemma getpid_least:
  obtains q where "getpid s = Some q" "1 \<le> q" "unat q \<le> PROCCNT + 1" "\<not> pid_used q (process_array s)"
    "\<And>r. 1 \<le> r \<Longrightarrow> r < q \<Longrightarrow> pid_used r (process_array s)"
proof -
  obtain q where q: "1 \<le> q" "unat q \<le> PROCCNT + 1" "\<not> pid_used q (process_array s)"
    "\<And>r. 1 \<le> r \<Longrightarrow> r < q \<Longrightarrow> pid_used r (process_array s)"
    by (rule unused_pid [of "process_array s"]) (rule that)
  then have "getpid s = Some q" unfolding getpid_def by (intro getpid_loop_least)
  with q show ?thesis by (intro that)
qed

lemma pid_used_cong:
  "(\<And>j. pid (procs ! j) = pid (procs' ! j)) \<Longrightarrow> pid_used q procs = pid_used q procs'"
  by (simp add: pid_used_def)

subsection \<open>Fork\<close>

definition free_slot :: "nat \<Rightarrow> 'a kernel_scheme \<Rightarrow> bool" where
  "free_slot i s \<longleftrightarrow> i < PROCCNT \<and> state (proc i s) = FREE \<and> (\<forall>j<i. state (proc j s) \<noteq> FREE)"

lemma fork_scan_Some: "fork_scan 0 (process_array s) = Some i \<longleftrightarrow> free_slot i s"
  by (auto simp: fork_scan_eq find_upt_Some free_slot_def proc_def)

lemma fork_scan_None: "fork_scan 0 (process_array s) = None \<longleftrightarrow> (\<forall>j<PROCCNT. state (proc j s) \<noteq> FREE)"
  by (auto simp: fork_scan_eq find_upt_None proc_def)

lemma kalloc_Some:
  assumes "frames s (f # fs)"
  obtains s1 where "kalloc s = (Some f, s1)" "frames s1 fs" "mem s1 = zero_page (mem s) f"
    "process_array s1 = process_array s" "tpidr_el1 s1 = tpidr_el1 s" "regs s1 = regs s"
    "ttbr0_el1 s1 = ttbr0_el1 s" "elr_el1 s1 = elr_el1 s" "sp_el0 s1 = sp_el0 s"
  by (rule that [OF kalloc_some(1,2) [OF assms]]) simp_all

lemma fork_no_slot:
  "\<forall>j<PROCCNT. state (proc j s) \<noteq> FREE \<Longrightarrow> sys_fork s = Some (Some (-1), s)"
  by (simp add: sys_fork_def fork_scan_None [THEN iffD2])

lemma fork_no_frame:
  assumes "kernel_wf s" "free_slot i s" "frames s []"
  shows "sys_fork s = Some (Some (-1), s)"
proof -
  have "i < length (process_array s)" "state (proc i s) = FREE"
    using assms by (simp_all add: kernel_wf_def free_slot_def)
  moreover have "kalloc s = (None, s)" using assms(3) by (rule ka.alloc_empty)
  ultimately show ?thesis
    using assms(2) by (simp add: sys_fork_def fork_scan_Some [THEN iffD2] upd_proc_same)
qed

lemma fork_one_frame:
  assumes "kernel_wf s" "free_slot i s" "frames s [f]"
  shows "\<exists>s'. sys_fork s = Some (Some (-1), s') \<and> frames s' [f] \<and>
    process_array s' = (process_array s)[i := (proc i s)\<lparr>stack_frame := 0\<rparr>] \<and>
    tpidr_el1 s' = tpidr_el1 s \<and> regs s' = regs s"
proof -
  have i: "i < length (process_array s)" "state (proc i s) = FREE"
    using assms by (simp_all add: kernel_wf_def free_slot_def)
  obtain s1 where s1: "kalloc s = (Some f, s1)" "frames s1 []" "process_array s1 = process_array s"
    "tpidr_el1 s1 = tpidr_el1 s" "regs s1 = regs s"
    using kalloc_Some [OF assms(3)] by metis
  have s2: "kalloc s1 = (None, s1)" using s1(2) by (rule ka.alloc_empty)
  define s' where "s' = upd_proc i (\<lambda>p. p\<lparr>state := FREE, stack_frame := 0\<rparr>) (kfree (Var f) s1)"
  have "sys_fork s = Some (Some (-1), s')"
    using assms(2) i s1 s2 by (simp add: sys_fork_def fork_scan_Some [THEN iffD2] Let_def s'_def)
  moreover have "frames s' [f]"
    using ka.free_frame [OF s1(2), of f] ka.avail_wf [OF assms(3)] by (simp add: s'_def)
  moreover have "process_array s' = (process_array s)[i := (proc i s)\<lparr>stack_frame := 0\<rparr>]"
    using i by (simp add: s'_def upd_proc_def s1 proc_def)
  ultimately show ?thesis using s1 by (simp add: s'_def)
qed

lemma mem_upd_proc [simp]: "(upd_proc i f s)\<lparr>mem := m\<rparr> = upd_proc i f (s\<lparr>mem := m\<rparr>)"
  by (simp add: upd_proc_def)

lemma proc_upd_mem [simp]: "proc i (s\<lparr>mem := m\<rparr>) = proc i s"
  by (simp add: proc_def)

definition child_of :: "nat \<Rightarrow> process \<Rightarrow> u64 \<Rightarrow> u64 \<Rightarrow> u8 \<Rightarrow> process \<Rightarrow> process" where
  "child_of c caller f g q p = (copy_registers caller p)\<lparr>sp := stack_top f, stack_frame := f,
     trap_frame := g, pid := q, parent := Some c, state := RUNNABLE\<rparr>"

lemma fork_child_eq:
  assumes i: "i < length (process_array s)" "i \<noteq> c" and q: "getpid s = Some q"
  shows "fork_child i c g s = Some (None,
    upd_proc i (child_of c (proc c s) (stack_frame (proc i s)) g q)
      (s\<lparr>mem := strcpy (stack_frame (proc c s)) (stack_frame (proc i s)) PageSize (mem s)\<rparr>))"
proof -
  let ?m = "strcpy (stack_frame (proc c s)) (stack_frame (proc i s)) PageSize (mem s)"
  define pre where "pre = (\<lambda>p. copy_registers (proc c s) ((free_registers (p\<lparr>trap_frame := g\<rparr>))
     \<lparr>sp := stack_top (stack_frame p), trap_frame := g\<rparr>))"
  have "getpid (upd_proc i pre (s\<lparr>mem := ?m\<rparr>)) = getpid s"
  proof -
    have "pid_used r (process_array (upd_proc i pre (s\<lparr>mem := ?m\<rparr>))) = pid_used r (process_array s)" for r
      by (rule pid_used_cong) (use i in \<open>simp add: upd_proc_def pre_def nth_list_update copy_registers_def
           free_registers_def\<close>)
    then show ?thesis by (metis getpid_least getpid_loop_least getpid_def option.inject)
  qed
  moreover have "fork_child i c g s = (case getpid (upd_proc i pre (s\<lparr>mem := ?m\<rparr>)) of None \<Rightarrow> None
      | Some q \<Rightarrow> Some (None, upd_proc i (\<lambda>p. (pre p)\<lparr>pid := q, parent := Some c, state := RUNNABLE\<rparr>)
          (s\<lparr>mem := ?m\<rparr>)))"
    using i by (simp add: fork_child_def Let_def pre_def free_registers_def cong: option.case_cong)
  moreover have "upd_proc i (\<lambda>p. (pre p)\<lparr>pid := q, parent := Some c, state := RUNNABLE\<rparr>) (s\<lparr>mem := ?m\<rparr>) =
      upd_proc i (child_of c (proc c s) (stack_frame (proc i s)) g q) (s\<lparr>mem := ?m\<rparr>)"
  proof -
    have "(pre p)\<lparr>pid := q, parent := Some c, state := RUNNABLE\<rparr> = child_of c (proc c s) (stack_frame p) g q p" for p
      by (cases p) (simp add: pre_def child_of_def copy_registers_def free_registers_def)
    then show ?thesis by (simp add: upd_proc_def proc_def)
  qed
  ultimately show ?thesis using q by simp
qed

lemma frames_strcpy:
  assumes "frames s fs" "page_aligned f" "f \<notin> set fs"
  shows "frames (s\<lparr>mem := strcpy a f PageSize (mem s)\<rparr>) fs"
proof -
  have "free_list (strcpy a f PageSize (mem s)) h fs = free_list (mem s) h fs" for h
    using assms by (intro free_list_other_frame [of _ f])
      (auto simp: frames_def PageSize_def strcpy_copies in_page_def)
  with assms(1) show ?thesis by (simp add: frames_def)
qed

lemma fork_two_frames:
  assumes wf: "kernel_wf s" and i: "free_slot i s" and fr: "frames s (f # g # fs)"
    and caller: "state (proc (tpidr_el1 s) s) \<noteq> FREE"
  shows "\<exists>q s'. sys_fork s = Some (None, s') \<and> frames s' fs \<and> getpid s = Some q \<and>
    process_array s' = (process_array s)[i := child_of (tpidr_el1 s) (proc (tpidr_el1 s) s) f g q (proc i s)] \<and>
    tpidr_el1 s' = tpidr_el1 s \<and> regs s' = regs s \<and> ttbr0_el1 s' = ttbr0_el1 s"
proof -
  define c where "c = tpidr_el1 s"
  have len: "i < length (process_array s)" "state (proc i s) = FREE"
    using wf i by (simp_all add: kernel_wf_def free_slot_def)
  then have ic: "i \<noteq> c" using caller by (auto simp: c_def)
  obtain s1 where s1: "kalloc s = (Some f, s1)" "frames s1 (g # fs)" "process_array s1 = process_array s"
    "tpidr_el1 s1 = c" "regs s1 = regs s" "ttbr0_el1 s1 = ttbr0_el1 s"
    using kalloc_Some [OF fr] unfolding c_def by metis
  obtain s2 where s2: "kalloc s1 = (Some g, s2)" "frames s2 fs" "process_array s2 = process_array s"
    "tpidr_el1 s2 = c" "regs s2 = regs s" "ttbr0_el1 s2 = ttbr0_el1 s"
    using kalloc_Some [OF s1(2)] s1 by metis
  obtain q where q: "getpid s = Some q" by (rule getpid_least)
  define s3 where "s3 = upd_proc i (\<lambda>p. p\<lparr>state := WAITING, stack_frame := f\<rparr>) s2"
  have pr: "proc c s3 = proc c s" "stack_frame (proc i s3) = f"
    using len ic by (simp_all add: s3_def proc_def upd_proc_def s2)
  have "getpid s3 = getpid s"
  proof -
    have "pid_used r (process_array s3) = pid_used r (process_array s)" for r
      by (rule pid_used_cong) (use len in \<open>simp add: upd_proc_def s3_def s2 nth_list_update\<close>)
    then show ?thesis by (metis getpid_least getpid_loop_least getpid_def option.inject)
  qed
  moreover have "sys_fork s = fork_child i c g s3"
    using i len ic s1 s2
    by (simp add: sys_fork_def fork_scan_Some [THEN iffD2] Let_def c_def [symmetric] get_current_process_def
        s3_def)
  ultimately have fork: "sys_fork s = Some (None, upd_proc i (child_of c (proc c s) f g q)
      (s3\<lparr>mem := strcpy (stack_frame (proc c s)) f PageSize (mem s3)\<rparr>))" (is "_ = Some (None, ?s')")
    using fork_child_eq [of i s3 c q g] len ic q pr s2 by (simp add: s3_def)
  have frm: "frames ?s' fs"
    using s2(2) ka.avail_wf [OF fr] by (simp add: frames_strcpy s3_def)
  have "process_array ?s' = (process_array s)[i := child_of c (proc c s) f g q (proc i s)]"
    using len by (simp add: s3_def upd_proc_def s2 child_of_def copy_registers_def proc_def)
  moreover have "tpidr_el1 ?s' = c" "regs ?s' = regs s" "ttbr0_el1 ?s' = ttbr0_el1 s"
    using s2 by (simp_all add: s3_def)
  ultimately show ?thesis using fork frm q unfolding c_def [symmetric] by blast
qed

end
