(* ===== verification/Process_Inv.thy ===== *)
theory Process_Inv
  imports Process
begin

text \<open>
  The process table as a transition system, and the properties of \<^verbatim>\<open>kernel/process.c\<close>.

  A run starts from \<open>create_first_process\<close> on a zeroed process array (the array is in the bss
  section) with at least two free frames, and goes on by calls of \<open>sys_fork\<close>, \<open>scheduler\<close>, \<open>sleep\<close>,
  \<open>wakeup\<close>, \<open>kill_process\<close>, and changes of the registers. \<open>proc_inv\<close> says that the
  frames of all live processes and the free list are disjoint, and that pids are unique.
  \<open>kill_process\<close> tests neither that the slot it frees is live nor that it is not the running process;
  \<open>kill_legal\<close> is the condition on its caller. Calls that find no process need no condition.
\<close>

section \<open>The system\<close>

definition bss_process :: process where
  "bss_process = \<lparr>x19 = 0, x20 = 0, x21 = 0, x22 = 0, x23 = 0, x24 = 0, x25 = 0, x26 = 0, x27 = 0,
     x28 = 0, fp = 0, lr = 0, sp = 0, stack_frame = 0, trap_frame = 0, parent = None, pagetable = 0,
     state = FREE, pid = 0, wait_on = 0\<rparr>"

definition first_process_running :: "kernel \<Rightarrow> bool" where
  "first_process_running s \<longleftrightarrow>
     (\<exists>s0 program junk f g fs. process_array s0 = replicate PROCCNT bss_process \<and>
        frames s0 (f # g # fs) \<and> s = create_first_process program junk s0)"



text \<open>
  The frames a slot owns: none when it is free; the first process, which has pid 0, owns only its trap frame,
  because \<^verbatim>\<open>create_first_process\<close> does not store the stack frame it allocates.
\<close>

definition owned :: "'a kernel_scheme \<Rightarrow> nat \<Rightarrow> u64 list" where
  "owned s i =
     (if i < PROCCNT \<and> state (proc i s) \<noteq> FREE
      then (if pid (proc i s) = 0 then [trap_frame (proc i s)] else [stack_frame (proc i s), trap_frame (proc i s)])
      else [])"

definition frames_disjoint :: "u64 list \<Rightarrow> (nat \<Rightarrow> u64 list) \<Rightarrow> bool" where
  "frames_disjoint fs own \<longleftrightarrow>
     (\<forall>i. distinct (own i) \<and> (\<forall>f\<in>set (own i). page_aligned f \<and> f \<noteq> 0 \<and> f \<notin> set fs)) \<and>
     (\<forall>i j. i \<noteq> j \<longrightarrow> set (own i) \<inter> set (own j) = {})"

definition pids_ok :: "'a kernel_scheme \<Rightarrow> bool" where
  "pids_ok s \<longleftrightarrow>
     (\<forall>i<PROCCNT. state (proc i s) = FREE \<longrightarrow> pid (proc i s) = 0) \<and>
     (\<forall>i<PROCCNT. state (proc i s) \<noteq> FREE \<and> pid (proc i s) = 0 \<longrightarrow> i = 0 \<and> stack_frame (proc i s) = 0) \<and>
     (\<forall>i<PROCCNT. \<forall>j<PROCCNT. state (proc i s) \<noteq> FREE \<and> state (proc j s) \<noteq> FREE \<and>
        pid (proc i s) = pid (proc j s) \<longrightarrow> i = j)"

definition proc_inv :: "'a kernel_scheme \<Rightarrow> bool" where
  "proc_inv s \<longleftrightarrow>
     kernel_wf s \<and> state (proc (tpidr_el1 s) s) \<noteq> FREE \<and> pids_ok s \<and>
     (\<exists>fs. frames s fs \<and> frames_disjoint fs (owned s))"

text \<open>What an operation may change in a slot without touching the ownership of frames or the pids.\<close>

definition quiet :: "process \<Rightarrow> process \<Rightarrow> bool" where
  "quiet p p' \<longleftrightarrow>
     (state p' = FREE \<longleftrightarrow> state p = FREE) \<and> pid p' = pid p \<and>
     (state p \<noteq> FREE \<longrightarrow> stack_frame p' = stack_frame p \<and> trap_frame p' = trap_frame p)"

section \<open>Preservation\<close>

lemma quiet_refl [simp]: "quiet p p"
  by (simp add: quiet_def)





lemma proc_inv_cur: "proc_inv s \<Longrightarrow> tpidr_el1 s < PROCCNT"
  by (simp add: proc_inv_def kernel_wf_def)






lemma kill_process_other: "pid (proc 0 s) \<noteq> p \<Longrightarrow> kill_process p s = (-1, s)"
  by (simp add: kill_process_def kill_scan.simps) (simp add: PROCCNT_def)

lemma kill_process_first:
  assumes "pid (proc 0 s) = p" "0 < length (process_array s)"
  shows "kill_process p s = (0, upd_proc 0 (\<lambda>p. (free_registers (p\<lparr>state := KILLED, pid := 0\<rparr>))\<lparr>state := FREE\<rparr>)
    (kfree (Var (trap_frame (proc 0 s))) (kfree (Var (stack_frame (proc 0 s))) s)))"
  using assms by (simp add: kill_process_def kill_scan.simps Let_def free_registers_def)
     (simp add: upd_proc_def proc_def)








lemma create_first_process_eq:
  assumes "frames s (f # g # fs)" "0 < length (process_array s)"
  obtains s' where "create_first_process program junk s = s'" "frames s' fs" "tpidr_el1 s' = 0"
    "process_array s' = (process_array s)[0 := (free_registers (proc 0 s))
       \<lparr>sp := stack_top (stack_frame (proc 0 s)), trap_frame := g, state := RUNNABLE, pid := 0\<rparr>]"
    "ttbr0_el1 s' = pagetable (proc 0 s)" "elr_el1 s' = program"
    "sp_el0 s' = stack_top (stack_frame (proc 0 s))" "mem s' = zero_page (zero_page (mem s) f) g"
proof -
  obtain s1 where s1: "kalloc s = (Some f, s1)" "frames s1 (g # fs)" "process_array s1 = process_array s"
    "mem s1 = zero_page (mem s) f"
    using kalloc_Some [OF assms(1)] by metis
  obtain s2 where s2: "kalloc s1 = (Some g, s2)" "frames s2 fs" "process_array s2 = process_array s"
    "mem s2 = zero_page (mem s1) g"
    using kalloc_Some [OF s1(2)] s1 by metis
  let ?f = "\<lambda>p. (free_registers (p\<lparr>state := WAITING\<rparr>))
      \<lparr>sp := stack_top (stack_frame (free_registers (p\<lparr>state := WAITING\<rparr>))), trap_frame := g, state := RUNNABLE, pid := 0\<rparr>"
  have len: "0 < length (process_array s2)" using assms(2) s2(3) by simp
  have pr: "proc 0 s2 = proc 0 s" by (simp add: proc_def s2)
  have eq: "create_first_process program junk s = (upd_proc 0 ?f s2)
      \<lparr>ttbr0_el1 := pagetable (?f (proc 0 s2)), tpidr_el1 := 0, elr_el1 := program, sp_el0 := sp (?f (proc 0 s2))\<rparr>"
    using len by (simp add: create_first_process_def Let_def load_pagetable_def user_start_def s1(1) s2(1))
       (simp add: proc_def upd_proc_def)
  show ?thesis
    by (rule that [OF refl]; unfold eq)
       (use s2 s1 len in \<open>simp_all add: frames_def upd_proc_def proc_def free_registers_def\<close>)
qed

lemma proc_inv_first: "first_process_running s \<Longrightarrow> proc_inv s"
proof -
  assume "first_process_running s"
  then obtain s0 program junk f g fs where s0: "process_array s0 = replicate PROCCNT bss_process"
    "frames s0 (f # g # fs)" "s = create_first_process program junk s0"
    unfolding first_process_running_def by blast
  have len: "0 < length (process_array s0)" by (simp add: s0)
  from create_first_process_eq [OF s0(2) len, of program junk] s0(3)
  have s: "frames s fs" "tpidr_el1 s = 0" "process_array s = (process_array s0)[0 := (free_registers (proc 0 s0))
       \<lparr>sp := stack_top (stack_frame (proc 0 s0)), trap_frame := g, state := RUNNABLE, pid := 0\<rparr>]" by metis+
  have p0: "proc 0 s0 = bss_process" by (simp add: proc_def s0(1))
  have "proc 0 s = (free_registers (proc 0 s0))
      \<lparr>sp := stack_top (stack_frame (proc 0 s0)), trap_frame := g, state := RUNNABLE, pid := 0\<rparr>"
    unfolding proc_def [of 0 s] s(3) using len by (rule nth_list_update_eq)
  then have pr0: "state (proc 0 s) = RUNNABLE" "pid (proc 0 s) = 0" "trap_frame (proc 0 s) = g"
    "stack_frame (proc 0 s) = 0"
    by (simp_all add: p0 free_registers_def bss_process_def)
  have prj: "proc j s = bss_process" if "0 < j" "j < PROCCNT" for j
    unfolding proc_def s(3) s0(1) using that by simp
  have st: "state (proc j s) = (if j = 0 then RUNNABLE else FREE)" "pid (proc j s) = 0" if "j < PROCCNT" for j
    using pr0 prj that by (cases "j = 0"; simp add: bss_process_def)+
  have own: "owned s = (\<lambda>i. if i = 0 then [g] else [])"
    by (auto simp: owned_def st pr0 fun_eq_iff split: if_splits)
  have "frames_disjoint fs (owned s)"
    using ka.avail_wf [OF s0(2)] by (auto simp: frames_disjoint_def own)
  moreover have "pids_ok s" using st pr0 by (auto simp: pids_ok_def split: if_splits)
  ultimately show "proc_inv s"
    using s st len by (auto simp: proc_inv_def kernel_wf_def s0)
qed




section \<open>Wake-up\<close>

lemma wakeup_loop_procs:
  "length (process_array s) = PROCCNT \<Longrightarrow>
   proc j (wakeup_loop i lk s) = (if i \<le> j \<and> j < PROCCNT then wake lk (proc j s) else proc j s)"
proof (induction i lk s rule: wakeup_loop.induct)
  case (1 i lk s)
  show ?case
  proof (cases "i < PROCCNT")
    case True
    with 1 show ?thesis by (subst wakeup_loop.simps) (cases "i = j"; auto)
  next
    case False
    then show ?thesis by (subst wakeup_loop.simps) auto
  qed
qed

lemma wakeup_procs:
  "length (process_array s) = PROCCNT \<Longrightarrow>
   proc j (wakeup lk s) = (if j < PROCCNT then wake lk (proc j s) else proc j s)"
  by (simp add: wakeup_def wakeup_loop_procs)

section \<open>Properties\<close>

text \<open>A concrete machine for the examples: three free frames and a zeroed process array, then the
  first process, then its first fork.\<close>

definition boot_kernel :: kernel where
  "boot_kernel = \<lparr>mem = store64 (store64 (\<lambda>_. 0) 0x1000 0x2000) 0x2000 0x3000, page_frame_linked_list = 0x1000,
     process_array = replicate PROCCNT bss_process, tpidr_el1 = 7,
     regs = \<lparr>x19 = 1, x20 = 2, x21 = 3, x22 = 4, x23 = 5, x24 = 6, x25 = 7, x26 = 8, x27 = 9, x28 = 10,
       fp = 11, lr = 12, sp = 13\<rparr>, ttbr0_el1 = 0, elr_el1 = 0, sp_el0 = 0\<rparr>"

definition forking_kernel :: kernel where
  "forking_kernel = boot_kernel\<lparr>process_array :=
     (replicate PROCCNT bss_process)[0 := bss_process\<lparr>state := RUNNABLE\<rparr>], tpidr_el1 := 0\<rparr>"

text \<open>Repeated calls of the scheduler with nothing in between.\<close>

primrec schedule_run :: "kernel \<Rightarrow> nat \<Rightarrow> kernel" where
  "schedule_run s 0 = s"
| "schedule_run s (Suc n) = (case scheduler (schedule_run s n) of Some s' \<Rightarrow> s' | None \<Rightarrow> schedule_run s n)"

lemma scheduler_keeps_runnable:
  assumes "kernel_wf s" "state (proc j s) = RUNNABLE"
  obtains s' where "scheduler s = Some s'" "kernel_wf s'" "state (proc j s') = RUNNABLE"
proof -
  obtain k s' where "scheduler s = Some s'" "round_robin s k s'"
    using scheduler_round_robin_ex [OF assms(1)] by blast
  moreover from this have "kernel_wf s'" "state (proc j s') = RUNNABLE"
    using assms(2) by (cases "j = tpidr_el1 s"; simp add: round_robin_def Let_def)+
  ultimately show ?thesis by (intro that)
qed

lemma schedule_run_scheduled:
  assumes "kernel_wf s" "state (proc j s) = RUNNABLE"
  shows "j < PROCCNT \<Longrightarrow> scheduled (schedule_run s) j" "kernel_wf (schedule_run s n)"
proof -
  have inv: "kernel_wf (schedule_run s n) \<and> state (proc j (schedule_run s n)) = RUNNABLE" for n
  proof (induction n)
    case (Suc n)
    then show ?case using scheduler_keeps_runnable [of "schedule_run s n" j] by (metis option.simps(5) schedule_run.simps(2))
  qed (use assms in simp)
  then show "kernel_wf (schedule_run s n)" by blast
  have "scheduler (schedule_run s n) = Some (schedule_run s (Suc n))" for n
    using scheduler_keeps_runnable [of "schedule_run s n" j] inv [of n] by (metis option.simps(5) schedule_run.simps(2))
  with inv show "j < PROCCNT \<Longrightarrow> scheduled (schedule_run s) j" unfolding scheduled_def by blast
qed

lemma boot_kernel_frames: "frames boot_kernel [0x1000, 0x2000, 0x3000]"
  by (simp add: boot_kernel_def frames_def page_aligned_def load64_store64_other overlap8_def)
     (simp add: load64_def store64_def)

lemma forking_kernel_ok:
  "kernel_wf forking_kernel" "free_slot 1 forking_kernel" "frames forking_kernel [0x1000, 0x2000, 0x3000]"
  "state (proc (tpidr_el1 forking_kernel) forking_kernel) \<noteq> FREE"
proof -
  show "free_slot 1 forking_kernel"
    by (simp add: forking_kernel_def free_slot_def proc_def PROCCNT_def) (simp add: bss_process_def)
  show "frames forking_kernel [0x1000, 0x2000, 0x3000]"
    using boot_kernel_frames by (simp add: forking_kernel_def frames_def)
qed (simp_all add: forking_kernel_def kernel_wf_def proc_def)

lemma boot_kernel_runs: "first_process_running (create_first_process program junk boot_kernel)"
  unfolding first_process_running_def
  using boot_kernel_frames by (intro exI conjI) (auto simp: boot_kernel_def)



text \<open>C22: \<^verbatim>\<open>scheduler\<close> returns: it marks the current process runnable, saves the core's registers
  in its slot, and makes current the first runnable process after it in round-robin order (itself
  if no other is), with that process's saved registers and page table; no other slot, memory or
  free frame changes.\<close>

theorem scheduler_round_robin:
  assumes "kernel_wf s"
  shows "\<exists>k s'. scheduler s = Some s' \<and> round_robin s k s'"
  using assms by (rule scheduler_round_robin_ex)

theorem scheduler_round_robin_witness:
  "\<exists>k s'. scheduler (boot_kernel\<lparr>tpidr_el1 := 63\<rparr>) = Some s' \<and> round_robin (boot_kernel\<lparr>tpidr_el1 := 63\<rparr>) k s'"
  by (rule scheduler_round_robin) (simp add: kernel_wf_def boot_kernel_def PROCCNT_def)

text \<open>C23: The scheduler is fair: in any run in which slot \<open>j\<close> stays runnable, \<open>j\<close> becomes the current process
  within 64 calls, whatever the processes do in between to the rest of the state.\<close>

theorem scheduler_fair:
  assumes "scheduled f j" "j < PROCCNT" "tpidr_el1 (f n) < PROCCNT"
  shows "\<exists>k\<le>PROCCNT. 0 < k \<and> tpidr_el1 (f (n + k)) = j"
  using scheduled_within [OF assms(1,2) turn_less [OF assms(3,2)]] .

theorem scheduler_fair_witness:
  "\<exists>k\<le>PROCCNT. 0 < k \<and> tpidr_el1 (schedule_run (boot_kernel\<lparr>process_array :=
     replicate PROCCNT (bss_process\<lparr>state := RUNNABLE\<rparr>)\<rparr>) (3 + k)) = 5"
proof (rule scheduler_fair)
  let ?s = "boot_kernel\<lparr>process_array := replicate PROCCNT (bss_process\<lparr>state := RUNNABLE\<rparr>)\<rparr>"
  have "kernel_wf ?s" "state (proc 5 ?s) = RUNNABLE"
    by (simp_all add: kernel_wf_def boot_kernel_def proc_def PROCCNT_def)
  note run = schedule_run_scheduled [OF this]
  show "scheduled (schedule_run ?s) 5" by (rule run(1)) (simp add: PROCCNT_def)
  show "tpidr_el1 (schedule_run ?s 3) < PROCCNT" using run(2) [of 3] by (simp add: PROCCNT_def kernel_wf_def)
qed (simp add: PROCCNT_def)

text \<open>C28: \<^verbatim>\<open>getpid\<close> returns for every process table: the least pid from 1 on that no slot has, which is at
  most 65, so the counter never wraps.\<close>

theorem getpid_returns_least:
  "\<exists>q. getpid s = Some q \<and> 1 \<le> unat q \<and> unat q \<le> PROCCNT + 1 \<and>
     (\<forall>j<PROCCNT. pid (proc j s) \<noteq> q) \<and>
     (\<forall>r. 1 \<le> r \<and> r < q \<longrightarrow> (\<exists>j<PROCCNT. pid (proc j s) = r))"
proof -
  obtain q where "getpid s = Some q" "1 \<le> q" "unat q \<le> PROCCNT + 1" "\<not> pid_used q (process_array s)"
    "\<And>r. 1 \<le> r \<Longrightarrow> r < q \<Longrightarrow> pid_used r (process_array s)"
    by (rule getpid_least [of s]) (rule that)
  then show ?thesis by (intro exI [of _ q]) (auto simp: pid_used_def proc_def word_le_nat_alt)
qed

theorem getpid_returns_least_witness:
  "\<exists>q. getpid boot_kernel = Some q \<and> 1 \<le> unat q \<and> (\<forall>j<PROCCNT. pid (proc j boot_kernel) \<noteq> q)"
  using getpid_returns_least [of boot_kernel] by blast

text \<open>C27: A failing \<^verbatim>\<open>sys_fork\<close> returns -1 and undoes its work. With no free slot, or with no free frame, the
  state is unchanged; with one free frame the frame is back on the free list and the only
  change to the process table is that the free slot's \<^verbatim>\<open>stack_frame\<close> is \<^verbatim>\<open>NULL\<close>.\<close>

theorem fork_failure_undone:
  assumes "kernel_wf s"
  shows "((\<forall>j<PROCCNT. state (proc j s) \<noteq> FREE) \<longrightarrow> sys_fork s = Some (Some (-1), s)) \<and>
    (frames s [] \<longrightarrow> sys_fork s = Some (Some (-1), s)) \<and>
    (\<forall>i f. free_slot i s \<longrightarrow> frames s [f] \<longrightarrow>
       (\<exists>s'. sys_fork s = Some (Some (-1), s') \<and> frames s' [f] \<and>
          process_array s' = (process_array s)[i := (proc i s)\<lparr>stack_frame := 0\<rparr>] \<and>
          tpidr_el1 s' = tpidr_el1 s \<and> regs s' = regs s))"
proof (intro conjI impI allI)
  show full: "sys_fork s = Some (Some (-1), s)" if "\<forall>j<PROCCNT. state (proc j s) \<noteq> FREE"
    using that by (rule fork_no_slot)
  show "sys_fork s = Some (Some (-1), s)" if "frames s []"
    using full fork_no_frame [OF assms _ that] fork_scan_None fork_scan_Some
    by (cases "fork_scan 0 (process_array s)") blast+
qed (rule fork_one_frame [OF assms])

theorem fork_failure_undone_witness:
  "sys_fork (boot_kernel\<lparr>page_frame_linked_list := 0, tpidr_el1 := 0\<rparr>) =
     Some (Some (-1), boot_kernel\<lparr>page_frame_linked_list := 0, tpidr_el1 := 0\<rparr>)"
proof -
  have "kernel_wf (boot_kernel\<lparr>page_frame_linked_list := 0, tpidr_el1 := 0\<rparr>)"
    by (simp add: kernel_wf_def boot_kernel_def)
  moreover have "frames (boot_kernel\<lparr>page_frame_linked_list := 0, tpidr_el1 := 0\<rparr>) []"
    by (simp add: frames_def)
  ultimately show ?thesis using fork_failure_undone by blast
qed

text \<open>C26: With a free slot and two free frames \<^verbatim>\<open>sys_fork\<close> runs to its end (and so returns no value): the
  first free slot becomes a runnable child of the caller with the caller's callee-saved registers,
  the two frames as its stack and trap frame and an unused non-zero pid; every other slot and
  the current process stay as they are.\<close>

theorem fork_creates_child:
  assumes "kernel_wf s" "free_slot i s" "frames s (f # g # fs)" "state (proc (tpidr_el1 s) s) \<noteq> FREE"
  shows "\<exists>q s'. sys_fork s = Some (None, s') \<and> frames s' fs \<and>
    q \<noteq> 0 \<and> (\<forall>j<PROCCNT. pid (proc j s) \<noteq> q) \<and>
    process_array s' = (process_array s)[i :=
      (copy_registers (proc (tpidr_el1 s) s) (proc i s))\<lparr>sp := stack_top f, stack_frame := f,
         trap_frame := g, pid := q, parent := Some (tpidr_el1 s), state := RUNNABLE\<rparr>] \<and>
    tpidr_el1 s' = tpidr_el1 s \<and> regs s' = regs s \<and> ttbr0_el1 s' = ttbr0_el1 s"
proof -
  obtain q s' where s': "sys_fork s = Some (None, s')" "frames s' fs" "getpid s = Some q"
    "process_array s' = (process_array s)[i := child_of (tpidr_el1 s) (proc (tpidr_el1 s) s) f g q (proc i s)]"
    "tpidr_el1 s' = tpidr_el1 s" "regs s' = regs s" "ttbr0_el1 s' = ttbr0_el1 s"
    using fork_two_frames [OF assms] by blast
  obtain q' where "getpid s = Some q'" "1 \<le> q'" "\<not> pid_used q' (process_array s)"
    by (rule getpid_least [of s])
  then have "q \<noteq> 0" "\<forall>j<PROCCNT. pid (proc j s) \<noteq> q"
    using s'(3) by (auto simp: pid_used_def proc_def)
  with s' show ?thesis unfolding child_of_def by blast
qed

theorem fork_creates_child_witness:
  "\<exists>q s'. sys_fork forking_kernel = Some (None, s') \<and> frames s' [0x3000] \<and> q \<noteq> 0 \<and>
     (\<forall>j<PROCCNT. pid (proc j forking_kernel) \<noteq> q)"
  using fork_creates_child [OF forking_kernel_ok] by (elim exE conjE) (intro exI conjI)

text \<open>The child of a fork starts with a stack pointer outside its stack frame: the array index counts
  frames, not bytes, and no address within more than 16 million bytes below it is in the frame.\<close>

theorem fork_stack_outside_frame:
  assumes "kernel_wf s" "free_slot i s" "frames s (f # g # fs)" "state (proc (tpidr_el1 s) s) \<noteq> FREE"
    and "d < 0xFFE001"
  shows "\<exists>s'. sys_fork s = Some (None, s') \<and> stack_frame (proc i s') = f \<and> \<not> in_page f (sp (proc i s') - d)"
proof -
  have "i < length (process_array s)" using assms(1,2) by (simp add: kernel_wf_def free_slot_def)
  then obtain s' where "sys_fork s = Some (None, s')" "stack_frame (proc i s') = f" "sp (proc i s') = stack_top f"
    using fork_two_frames [OF assms(1-4)] by (auto simp: proc_def child_of_def)
  moreover have "\<not> in_page f (stack_top f - d)"
  proof -
    have eq: "stack_top f - d - f = 0xFFF000 - d" by (simp add: stack_top_def PageSize_def)
    have "unat d < 0xFFE001" using assms(5) by (simp add: word_less_nat_alt)
    then have "unat (0xFFF000 - d) = 0xFFF000 - unat d" by (subst unat_sub) (simp_all add: word_le_nat_alt)
    with \<open>unat d < 0xFFE001\<close> show ?thesis unfolding in_page_def eq by (simp add: word_less_nat_alt)
  qed
  ultimately show ?thesis by auto
qed

theorem fork_stack_outside_frame_witness:
  "\<exists>s'. sys_fork forking_kernel = Some (None, s') \<and> stack_frame (proc 1 s') = 0x1000 \<and>
     \<not> in_page 0x1000 (sp (proc 1 s') - 16)"
  by (rule fork_stack_outside_frame [OF forking_kernel_ok]) simp

text \<open>C29: Switching from process \<open>i\<close> to \<open>j\<close> and back restores the core's registers exactly, makes \<open>i\<close> current
  again with its page table, and leaves \<open>j\<close>'s saved registers as they were.\<close>

theorem switch_to_roundtrip:
  assumes "i < length (process_array s)" "j < length (process_array s)" "i \<noteq> j"
  shows "let s' = switch_to j i (switch_to i j s) in
     regs s' = regs s \<and> tpidr_el1 s' = i \<and> ttbr0_el1 s' = pagetable (proc i s) \<and>
     proc j s' = proc j s \<and> (\<forall>k. k \<noteq> i \<longrightarrow> proc k s' = proc k s) \<and> mem s' = mem s"
  using assms by (simp add: switch_to_def Let_def upd_proc_def proc_def nth_list_update)

theorem switch_to_roundtrip_witness:
  "regs (switch_to 5 0 (switch_to 0 5 boot_kernel)) = regs boot_kernel"
  using switch_to_roundtrip [of 0 boot_kernel 5] by (simp add: boot_kernel_def PROCCNT_def Let_def)

text \<open>\<^verbatim>\<open>kill_process\<close> only ever looks at slot 0: with any other pid than that slot's it returns -1 and
  changes nothing, although another slot may have the pid.\<close>

theorem kill_process_first_slot_only:
  "pid (proc 0 s) \<noteq> p \<Longrightarrow> kill_process p s = (-1, s)"
  by (rule kill_process_other)

theorem kill_process_first_slot_only_witness:
  "kill_process 3 (upd_proc 5 (\<lambda>p. p\<lparr>pid := 3, state := RUNNABLE\<rparr>) boot_kernel) =
     (-1, upd_proc 5 (\<lambda>p. p\<lparr>pid := 3, state := RUNNABLE\<rparr>) boot_kernel)"
  by (rule kill_process_first_slot_only) (simp add: proc_def upd_proc_def boot_kernel_def bss_process_def PROCCNT_def)

text \<open>Killing the first process loses the free list: its \<^verbatim>\<open>stack_frame\<close> is \<^verbatim>\<open>NULL\<close>, so the first \<^verbatim>\<open>kfree\<close>
  makes \<^verbatim>\<open>NULL\<close> the head of the list and afterwards the trap frame is the only free frame.\<close>

theorem kill_first_process_loses_free_list:
  assumes "proc_inv s" "state (proc 0 s) \<noteq> FREE" "pid (proc 0 s) = 0"
  shows "\<exists>s'. kill_process 0 s = (0, s') \<and> frames s' [trap_frame (proc 0 s)]"
proof -
  have p0: "0 < length (process_array s)" and sf: "stack_frame (proc 0 s) = 0"
    using assms by (simp_all add: proc_inv_def kernel_wf_def pids_ok_def)
  have "trap_frame (proc 0 s) \<in> set (owned s 0)" using assms by (simp add: owned_def)
  then have tf: "page_aligned (trap_frame (proc 0 s))" "trap_frame (proc 0 s) \<noteq> 0"
    using assms(1) unfolding proc_inv_def frames_disjoint_def by blast+
  have "frames (kfree (Var 0) s) []" by (simp add: frames_def kfree_def Let_def)
  from ka.free_frame [OF this tf] show ?thesis
    using kill_process_first [OF assms(3) p0] sf by simp
qed

theorem kill_first_process_loses_free_list_witness:
  "\<exists>s'. kill_process 0 (create_first_process 0x4000 0 boot_kernel) = (0, s') \<and>
     frames s' [trap_frame (proc 0 (create_first_process 0x4000 0 boot_kernel))]"
proof (rule kill_first_process_loses_free_list)
  obtain s' where s': "create_first_process 0x4000 0 boot_kernel = s'"
    "process_array s' = (process_array boot_kernel)[0 := (free_registers (proc 0 boot_kernel))
       \<lparr>sp := stack_top (stack_frame (proc 0 boot_kernel)), trap_frame := 0x2000, state := RUNNABLE, pid := 0\<rparr>]"
    by (rule create_first_process_eq [OF boot_kernel_frames, of "0x4000" 0]) (simp_all add: boot_kernel_def)
  then show "state (proc 0 (create_first_process 0x4000 0 boot_kernel)) \<noteq> FREE"
    "pid (proc 0 (create_first_process 0x4000 0 boot_kernel)) = 0"
    by (simp_all add: proc_def boot_kernel_def)
qed (rule proc_inv_first [OF boot_kernel_runs])

text \<open>C30: \<^verbatim>\<open>sleep\<close> marks the current process as waiting on the lock but returns to it: it stays the current
  process, with all registers as before. \<^verbatim>\<open>wakeup\<close> makes exactly the processes waiting on the
  lock runnable and clears their \<^verbatim>\<open>wait_on\<close>.\<close>

theorem sleep_then_wakeup:
  assumes "kernel_wf s"
  shows "let (spin', s1) = sleep cpu_id lk spin s; s2 = wakeup lk s1 in
     spin' = snd (spinlock_release cpu_id spin) \<and>
     tpidr_el1 s1 = tpidr_el1 s \<and> regs s1 = regs s \<and>
     state (proc (tpidr_el1 s) s1) = WAITING \<and> wait_on (proc (tpidr_el1 s) s1) = lk \<and>
     (\<forall>j<PROCCNT. proc j s2 = (if j = tpidr_el1 s \<or> (state (proc j s) = WAITING \<and> wait_on (proc j s) = lk)
        then (proc j s)\<lparr>state := RUNNABLE, wait_on := 0\<rparr> else proc j s))"
proof -
  define c where "c = tpidr_el1 s"
  define s1 where "s1 = upd_proc c (\<lambda>p. p\<lparr>state := WAITING, wait_on := lk\<rparr>) s"
  have c: "c < length (process_array s)" "length (process_array s1) = PROCCNT"
    using assms by (simp_all add: kernel_wf_def c_def s1_def)
  have sl: "sleep cpu_id lk spin s = (snd (spinlock_release cpu_id spin), s1)"
    using c by (simp add: sleep_def get_current_process_def c_def [symmetric] s1_def Let_def split: prod.splits)
  have "proc j (wakeup lk s1) = wake lk (proc j s1)" if "j < PROCCNT" for j
    using wakeup_procs [OF c(2)] that by simp
  moreover have "proc j s1 = (if j = c then (proc c s)\<lparr>state := WAITING, wait_on := lk\<rparr> else proc j s)" for j
    using c by (cases "c = j") (simp_all add: s1_def)
  ultimately show ?thesis
    unfolding sl c_def [symmetric] by (simp add: wake_def) (simp add: s1_def c_def)
qed

theorem sleep_then_wakeup_witness:
  "state (proc 7 (snd (sleep 0 0x5000 (True, lock held_sys) boot_kernel))) = WAITING"
  using sleep_then_wakeup [of boot_kernel 0 "0x5000" "(True, lock held_sys)"]
  by (simp add: kernel_wf_def boot_kernel_def PROCCNT_def Let_def split: prod.splits)

end
