(* ===== verification/Sleeplock.thy ===== *)
theory Sleeplock
  imports Process
begin

text \<open>
  The sleep lock of \<^verbatim>\<open>kernel/lock.c\<close> (lines 40--70) over the spin lock and the process table.

  \<open>sleeper\<close> is what one core works on: its interrupt mask, the lock and the kernel state, in which
  \<^verbatim>\<open>tpidr_el1\<close> is the core's own. \<open>lk\<close> is the address of the lock and \<open>procs_at\<close> the address of
  \<^verbatim>\<open>process_array\<close>; \<^verbatim>\<open>lk->pid = get_current_process()\<close> stores the low byte of the address of
  the process, whose size is 152 bytes.
\<close>

section \<open>The lock and its functions\<close>

record SleepLock =
  spin_lk :: SpinLock
  slocked :: u8
  spid :: u8
  sname :: u64

definition sleeplock_init :: "u64 \<Rightarrow> u64 \<Rightarrow> SleepLock \<Rightarrow> SleepLock" where
  "sleeplock_init spin_name nm lk =
     lk\<lparr>slocked := 0, spid := 0, sname := nm, spin_lk := spinlock_init spin_name (spin_lk lk)\<rparr>"

definition sleeplock_holds :: "SleepLock \<Rightarrow> kernel \<Rightarrow> bool" where
  "sleeplock_holds lk s \<longleftrightarrow> spid lk = pid (proc (get_current_process s) s)"

definition process_address :: "u64 \<Rightarrow> nat \<Rightarrow> u64" where
  "process_address procs_at i = procs_at + 152 * of_nat i"

type_synonym sleeper = "bool \<times> SleepLock \<times> kernel"

text \<open>The \<^verbatim>\<open>while(lk->locked)\<close> loop: \<open>sleep\<close> releases the spin lock and returns.\<close>

definition sleep_once :: "u8 \<Rightarrow> u64 \<Rightarrow> sleeper \<Rightarrow> sleeper" where
  "sleep_once cpu_id lk st =
     (case st of (masked, slk, s) \<Rightarrow>
        case sleep cpu_id lk (masked, spin_lk slk) s of
          ((masked, spin), s) \<Rightarrow> (masked, slk\<lparr>spin_lk := spin\<rparr>, s))"

partial_function (option) sleeplock_wait :: "u8 \<Rightarrow> u64 \<Rightarrow> sleeper \<Rightarrow> sleeper option" where
  "sleeplock_wait cpu_id lk st =
     (if slocked (fst (snd st)) \<noteq> 0 then sleeplock_wait cpu_id lk (sleep_once cpu_id lk st) else Some st)"

declare sleeplock_wait.simps [code]

definition sleeplock_take :: "u8 \<Rightarrow> u64 \<Rightarrow> sleeper \<Rightarrow> sleeper" where
  "sleeplock_take cpu_id procs_at st =
     (case st of (masked, slk, s) \<Rightarrow>
        let slk = slk\<lparr>slocked := 1\<rparr>;
            slk = slk\<lparr>spid := ucast (process_address procs_at (get_current_process s))\<rparr>;
            (_, masked, spin) = spinlock_release cpu_id (masked, spin_lk slk)
        in (masked, slk\<lparr>spin_lk := spin\<rparr>, s))"

definition sleeplock_acquire :: "u8 \<Rightarrow> u64 \<Rightarrow> u64 \<Rightarrow> sleeper \<Rightarrow> sleeper option" where
  "sleeplock_acquire cpu_id lk procs_at st =
     (case st of (masked, slk, s) \<Rightarrow>
        case spinlock_acquire cpu_id (masked, spin_lk slk) of
          None \<Rightarrow> None
        | Some (masked, spin) \<Rightarrow>
            (case sleeplock_wait cpu_id lk (masked, slk\<lparr>spin_lk := spin\<rparr>, s) of
               None \<Rightarrow> None
             | Some st \<Rightarrow> Some (sleeplock_take cpu_id procs_at st)))"

definition sleeplock_release :: "u8 \<Rightarrow> u64 \<Rightarrow> sleeper \<Rightarrow> sleeper option" where
  "sleeplock_release cpu_id lk st =
     (case st of (masked, slk, s) \<Rightarrow>
        case spinlock_acquire cpu_id (masked, spin_lk slk) of
          None \<Rightarrow> None
        | Some (masked, spin) \<Rightarrow>
            (let slk = slk\<lparr>spin_lk := spin\<rparr>;
                 slk = slk\<lparr>slocked := 0\<rparr>;
                 slk = slk\<lparr>spid := 0\<rparr>;
                 s = wakeup lk s;
                 (_, masked, spin) = spinlock_release cpu_id (masked, spin_lk slk)
             in Some (masked, slk\<lparr>spin_lk := spin\<rparr>, s)))"

section \<open>Two cores\<close>

text \<open>
  Cores interleave at the points where \<^verbatim>\<open>sleeplock_acquire\<close> can be observed: after the spin lock is
  taken, after each test of \<^verbatim>\<open>lk->locked\<close> with its \<^verbatim>\<open>sleep\<close>, and at the final assignments. \<open>curs i\<close> is
  core \<open>i\<close>'s \<^verbatim>\<open>tpidr_el1\<close>. A core in \<open>Holds\<close> has returned from \<^verbatim>\<open>sleeplock_acquire\<close> and has not
  called \<^verbatim>\<open>sleeplock_release\<close>.
\<close>

datatype sleep_pc = Out | Testing | Taking | Holds

record sleep_sys =
  slk :: SleepLock
  kern :: kernel
  spcs :: "u8 \<Rightarrow> sleep_pc"
  masks :: "u8 \<Rightarrow> bool"
  curs :: "u8 \<Rightarrow> nat"

definition view :: "u8 \<Rightarrow> sleep_sys \<Rightarrow> sleeper" where
  "view i s = (masks s i, slk s, (kern s)\<lparr>tpidr_el1 := curs s i\<rparr>)"

definition commit :: "u8 \<Rightarrow> sleeper \<Rightarrow> sleep_pc \<Rightarrow> sleep_sys \<Rightarrow> sleep_sys" where
  "commit i st pc s =
     (case st of (m, l, k) \<Rightarrow>
        s\<lparr>slk := l, kern := k, masks := (masks s)(i := m), spcs := (spcs s)(i := pc)\<rparr>)"

inductive sleep_step :: "u64 \<Rightarrow> u64 \<Rightarrow> sleep_sys \<Rightarrow> sleep_sys \<Rightarrow> bool"
  for lk procs_at :: u64 where
  enter: "spcs s i = Out \<Longrightarrow> spinlock_acquire i (masks s i, spin_lk (slk s)) = Some (m, spin) \<Longrightarrow>
    sleep_step lk procs_at s (commit i (m, (slk s)\<lparr>spin_lk := spin\<rparr>, kern s) Testing s)"
| wait: "spcs s i = Testing \<Longrightarrow> slocked (slk s) \<noteq> 0 \<Longrightarrow>
    sleep_step lk procs_at s (commit i (sleep_once i lk (view i s)) Testing s)"
| leave: "spcs s i = Testing \<Longrightarrow> slocked (slk s) = 0 \<Longrightarrow>
    sleep_step lk procs_at s (s\<lparr>spcs := (spcs s)(i := Taking)\<rparr>)"
| take: "spcs s i = Taking \<Longrightarrow>
    sleep_step lk procs_at s (commit i (sleeplock_take i procs_at (view i s)) Holds s)"
| release: "spcs s i = Holds \<Longrightarrow> sleeplock_release i lk (view i s) = Some st \<Longrightarrow>
    sleep_step lk procs_at s (commit i st Out s)"

text \<open>Concrete states for the examples.\<close>

definition free_sleeplock :: SleepLock where
  "free_sleeplock = sleeplock_init 0 0 \<lparr>spin_lk = \<lparr>locked = 7, cpu = 7, lock_name = 7\<rparr>, slocked = 7, spid = 7, sname = 7\<rparr>"

definition first_kernel :: kernel where
  "first_kernel = \<lparr>mem = (\<lambda>_. 0), page_frame_linked_list = 0,
     process_array = replicate PROCCNT
       \<lparr>x19 = 0, x20 = 0, x21 = 0, x22 = 0, x23 = 0, x24 = 0, x25 = 0, x26 = 0, x27 = 0, x28 = 0,
        fp = 0, lr = 0, sp = 0, stack_frame = 0, trap_frame = 0, parent = None, pagetable = 0,
        state = RUNNABLE, pid = 9, wait_on = 0\<rparr>,
     tpidr_el1 = 0,
     regs = \<lparr>x19 = 0, x20 = 0, x21 = 0, x22 = 0, x23 = 0, x24 = 0, x25 = 0, x26 = 0, x27 = 0, x28 = 0,
       fp = 0, lr = 0, sp = 0\<rparr>, ttbr0_el1 = 0, elr_el1 = 0, sp_el0 = 0\<rparr>"

definition first_sleep_sys :: sleep_sys where
  "first_sleep_sys = \<lparr>slk = free_sleeplock, kern = first_kernel, spcs = (\<lambda>_. Out), masks = (\<lambda>_. False),
     curs = (\<lambda>i. unat i)\<rparr>"

section \<open>Lemmas\<close>

lemma sleep_once_slocked [simp]: "slocked (fst (snd (sleep_once cpu_id lk st))) = slocked (fst (snd st))"
  by (simp add: sleep_once_def split: prod.splits)

lemma sleeplock_wait_free: "slocked l = 0 \<Longrightarrow> sleeplock_wait i lk (m, l, s) = Some (m, l, s)"
  by (subst sleeplock_wait.simps) simp

lemma sleeplock_wait_Some:
  assumes "sleeplock_wait cpu_id lk st = Some st'"
  shows "slocked (fst (snd st)) = 0"
proof (rule sleeplock_wait.raw_induct [where P = "\<lambda>cpu_id lk st st'. slocked (fst (snd st)) = 0", OF _ assms])
  fix wt :: "u8 \<Rightarrow> u64 \<Rightarrow> sleeper \<Rightarrow> sleeper option" and cpu_id lk and st st' :: sleeper
  assume IH: "\<And>cpu_id lk st st'. wt cpu_id lk st = Some st' \<Longrightarrow> slocked (fst (snd st)) = 0"
    and eq: "(if slocked (fst (snd st)) \<noteq> 0 then wt cpu_id lk (sleep_once cpu_id lk st) else Some st) = Some st'"
  then show "slocked (fst (snd st)) = 0" using IH [of cpu_id lk "sleep_once cpu_id lk st"] by (auto split: if_splits)
qed

lemma sleeplock_wait_held: "slocked l \<noteq> 0 \<Longrightarrow> sleeplock_wait i lk (m, l, s) = None"
  using sleeplock_wait_Some [of i lk "(m, l, s)"] by (cases "sleeplock_wait i lk (m, l, s)") auto

lemma spin_cycle: "locked l = 0 \<Longrightarrow> l\<lparr>locked := 1, cpu := i, cpu := 0, locked := 0\<rparr> = l\<lparr>cpu := 0\<rparr>"
  by (cases l) simp

lemma sleeplock_acquire_free:
  assumes "locked (spin_lk l) = 0" "slocked l = 0"
  shows "sleeplock_acquire i lk procs_at (m, l, s) =
    Some (True, l\<lparr>slocked := 1, spid := ucast (process_address procs_at (tpidr_el1 s)),
                  spin_lk := (spin_lk l)\<lparr>cpu := 0\<rparr>\<rparr>, s)"
  using assms
  by (cases l) (simp add: sleeplock_acquire_def spinlock_acquire_eq sleeplock_wait_free sleeplock_take_def
      spinlock_release_def spinlock_holds_def get_current_process_def Let_def)

lemma sleeplock_release_free:
  assumes "locked (spin_lk l) = 0"
  shows "sleeplock_release i lk (m, l, s) =
    Some (True, l\<lparr>slocked := 0, spid := 0, spin_lk := (spin_lk l)\<lparr>cpu := 0\<rparr>\<rparr>, wakeup lk s)"
  using assms
  by (cases l) (simp add: sleeplock_release_def spinlock_acquire_eq spinlock_release_def spinlock_holds_def Let_def)

text \<open>The part of the state the interleavings depend on.\<close>

definition shape :: "sleep_sys \<Rightarrow> (u8 \<Rightarrow> sleep_pc) \<Rightarrow> bool \<Rightarrow> u8 option \<Rightarrow> bool" where
  "shape s pc held spin \<longleftrightarrow> spcs s = pc \<and> (slocked (slk s) \<noteq> 0 \<longleftrightarrow> held) \<and>
     (case spin of None \<Rightarrow> locked (spin_lk (slk s)) = 0
      | Some i \<Rightarrow> locked (spin_lk (slk s)) \<noteq> 0 \<and> cpu (spin_lk (slk s)) = i)"

lemma step_enter:
  assumes "shape s pc h None" "pc i = Out"
  shows "\<exists>s'. sleep_step lk pa s s' \<and> shape s' (pc(i := Testing)) h (Some i)"
  using assms sleep_step.enter [of s i True "(spin_lk (slk s))\<lparr>locked := 1, cpu := i\<rparr>" lk pa]
  by (intro exI conjI) (auto simp: shape_def spinlock_acquire_eq commit_def)

lemma step_wait:
  assumes "shape s pc True (Some i)" "pc i = Testing"
  shows "\<exists>s'. sleep_step lk pa s s' \<and> shape s' pc True None"
  using assms sleep_step.wait [of s i lk pa]
  by (intro exI conjI)
     (auto simp: shape_def commit_def sleep_once_def view_def sleep_def spinlock_release_def
       spinlock_holds_def Let_def)

lemma step_leave:
  assumes "shape s pc False spin" "pc i = Testing"
  shows "\<exists>s'. sleep_step lk pa s s' \<and> shape s' (pc(i := Taking)) False spin"
  using assms sleep_step.leave [of s i lk pa] by (intro exI conjI) (auto simp: shape_def cong: option.case_cong)

lemma step_take:
  assumes sh: "shape s pc h spin" "pc i = Taking" "spin = Some i \<or> spin = None"
  shows "\<exists>s'. sleep_step lk pa s s' \<and> shape s' (pc(i := Holds)) True None"
proof (intro exI conjI)
  show "sleep_step lk pa s (commit i (sleeplock_take i pa (view i s)) Holds s)"
    using sh by (intro sleep_step.take) (simp add: shape_def)
  show "shape (commit i (sleeplock_take i pa (view i s)) Holds s) (pc(i := Holds)) True None"
    using sh by (cases spin)
      (simp_all add: shape_def commit_def sleeplock_take_def view_def spinlock_release_def
        spinlock_holds_def Let_def)
qed

lemma step_release:
  assumes "shape s pc h None" "pc i = Holds"
  shows "\<exists>s'. sleep_step lk pa s s' \<and> shape s' (pc(i := Out)) False None"
proof (intro exI conjI)
  let ?st = "(True, (slk s)\<lparr>slocked := 0, spid := 0, spin_lk := (spin_lk (slk s))\<lparr>cpu := 0\<rparr>\<rparr>,
    wakeup lk ((kern s)\<lparr>tpidr_el1 := curs s i\<rparr>))"
  have "sleeplock_release i lk (view i s) = Some ?st"
    using assms by (simp add: view_def sleeplock_release_free shape_def)
  then show "sleep_step lk pa s (commit i ?st Out s)"
    using assms by (intro sleep_step.release) (simp_all add: shape_def)
  show "shape (commit i ?st Out s) (pc(i := Out)) False None"
    using assms by (simp add: shape_def commit_def)
qed

definition sleep_boot :: "sleep_sys \<Rightarrow> bool" where
  "sleep_boot s \<longleftrightarrow> slocked (slk s) = 0 \<and> locked (spin_lk (slk s)) = 0 \<and> spcs s = (\<lambda>_. Out)"

definition can :: "u64 \<Rightarrow> u64 \<Rightarrow> sleep_sys \<Rightarrow> (u8 \<Rightarrow> sleep_pc) \<Rightarrow> bool \<Rightarrow> u8 option \<Rightarrow> bool" where
  "can lk pa s0 pc h spin \<longleftrightarrow> (\<exists>s. (sleep_step lk pa)\<^sup>*\<^sup>* s0 s \<and> shape s pc h spin)"

lemma can_step:
  assumes "can lk pa s0 pc h spin"
    and "\<And>s. shape s pc h spin \<Longrightarrow> \<exists>s'. sleep_step lk pa s s' \<and> shape s' pc' h' spin'"
  shows "can lk pa s0 pc' h' spin'"
  using assms unfolding can_def by (meson rtranclp.rtrancl_into_rtrancl)

lemma can_steps:
  "can lk pa s0 pc h None \<Longrightarrow> pc i = Out \<Longrightarrow> can lk pa s0 (pc(i := Testing)) h (Some i)"
  "can lk pa s0 pc True (Some i) \<Longrightarrow> pc i = Testing \<Longrightarrow> can lk pa s0 pc True None"
  "can lk pa s0 pc False spin \<Longrightarrow> pc i = Testing \<Longrightarrow> can lk pa s0 (pc(i := Taking)) False spin"
  "can lk pa s0 pc h spin \<Longrightarrow> pc i = Taking \<Longrightarrow> spin = Some i \<or> spin = None \<Longrightarrow>
     can lk pa s0 (pc(i := Holds)) True None"
  "can lk pa s0 pc h None \<Longrightarrow> pc i = Holds \<Longrightarrow> can lk pa s0 (pc(i := Out)) False None"
      apply (erule can_step, erule (1) step_enter)
     apply (erule can_step, erule (1) step_wait)
    apply (erule can_step, erule (1) step_leave)
   apply (erule can_step, erule (2) step_take)
  apply (erule can_step, erule (1) step_release)
  done

lemma sleeplock_race:
  assumes s0: "sleep_boot s0" and d: "i \<noteq> j" "i \<noteq> k" "j \<noteq> k"
  shows "\<exists>s. (sleep_step lk pa)\<^sup>*\<^sup>* s0 s \<and> spcs s j = Holds \<and> spcs s k = Holds"
proof -
  let ?c = "can lk pa s0"
  have "shape s0 (\<lambda>_. Out) False None" using s0 by (simp add: shape_def sleep_boot_def)
  then have "?c (\<lambda>_. Out) False None" unfolding can_def by blast
  from can_steps(1) [OF this, of i] have "?c ((\<lambda>_. Out)(i := Testing)) False (Some i)" by simp
  from can_steps(3) [OF this, of i] have "?c ((\<lambda>_. Out)(i := Taking)) False (Some i)" by simp
  from can_steps(4) [OF this, of i] have "?c ((\<lambda>_. Out)(i := Holds)) True None" by simp
  from can_steps(1) [OF this, of j] d have "?c ((\<lambda>_. Out)(i := Holds, j := Testing)) True (Some j)" by simp
  from can_steps(2) [OF this] have "?c ((\<lambda>_. Out)(i := Holds, j := Testing)) True None" by simp
  from can_steps(1) [OF this, of k] d
  have "?c ((\<lambda>_. Out)(i := Holds, j := Testing, k := Testing)) True (Some k)" by simp
  from can_steps(2) [OF this] have "?c ((\<lambda>_. Out)(i := Holds, j := Testing, k := Testing)) True None" by simp
  from can_steps(5) [OF this, of i] d
  have "?c ((\<lambda>_. Out)(i := Holds, j := Testing, k := Testing, i := Out)) False None" by simp
  from can_steps(3) [OF this, of j] d
  have "?c ((\<lambda>_. Out)(i := Holds, j := Testing, k := Testing, i := Out, j := Taking)) False None" by simp
  from can_steps(3) [OF this, of k] d
  have "?c ((\<lambda>_. Out)(i := Holds, j := Testing, k := Testing, i := Out, j := Taking, k := Taking)) False None"
    by simp
  from can_steps(4) [OF this, of j] d
  have "?c ((\<lambda>_. Out)(i := Holds, j := Testing, k := Testing, i := Out, j := Taking, k := Taking, j := Holds))
    True None" by simp
  from can_steps(4) [OF this, of k] d
  have "?c ((\<lambda>_. Out)(i := Holds, j := Testing, k := Testing, i := Out, j := Taking, k := Taking, j := Holds,
    k := Holds)) True None" by simp
  then show ?thesis using d unfolding can_def shape_def by auto
qed

section \<open>Properties\<close>

text \<open>C32: An uncontended \<^verbatim>\<open>sleeplock_acquire\<close> returns with the lock taken and the spin lock free again, and the
  matching \<^verbatim>\<open>sleeplock_release\<close> returns with the lock free, its \<^verbatim>\<open>pid\<close> cleared and its waiters woken;
  a contended \<^verbatim>\<open>sleeplock_acquire\<close> does not return on its own, since nothing it calls clears
  \<^verbatim>\<open>lk->locked\<close>.\<close>

theorem sleeplock_acquire_release:
  assumes "locked (spin_lk l) = 0"
  shows "(slocked l = 0 \<longrightarrow>
      (\<exists>l1. sleeplock_acquire i lk procs_at (m, l, s) = Some (True, l1, s) \<and> slocked l1 = 1 \<and>
            locked (spin_lk l1) = 0 \<and>
            sleeplock_release i lk (True, l1, s) =
              Some (True, l\<lparr>spid := 0, spin_lk := (spin_lk l)\<lparr>cpu := 0\<rparr>\<rparr>, wakeup lk s))) \<and>
    (slocked l \<noteq> 0 \<longrightarrow> sleeplock_acquire i lk procs_at (m, l, s) = None)"
proof (intro conjI impI)
  assume "slocked l = 0"
  moreover from this have "l\<lparr>slocked := 0\<rparr> = l" by (cases l) simp
  ultimately show "\<exists>l1. sleeplock_acquire i lk procs_at (m, l, s) = Some (True, l1, s) \<and> slocked l1 = 1 \<and>
            locked (spin_lk l1) = 0 \<and>
            sleeplock_release i lk (True, l1, s) =
              Some (True, l\<lparr>spid := 0, spin_lk := (spin_lk l)\<lparr>cpu := 0\<rparr>\<rparr>, wakeup lk s)"
    using assms by (cases l) (simp add: sleeplock_acquire_free sleeplock_release_free)
next
  assume "slocked l \<noteq> 0"
  then show "sleeplock_acquire i lk procs_at (m, l, s) = None"
    using assms by (simp add: sleeplock_acquire_def spinlock_acquire_eq sleeplock_wait_held)
qed

theorem sleeplock_acquire_release_witness:
  "\<forall>s. sleeplock_acquire 1 0x5000 0x6000 (False, free_sleeplock\<lparr>slocked := 1\<rparr>, s) = None \<and>
     (\<exists>l1. sleeplock_acquire 1 0x5000 0x6000 (False, free_sleeplock, s) = Some (True, l1, s) \<and> slocked l1 = 1)"
  using sleeplock_acquire_release [of "free_sleeplock\<lparr>slocked := 1\<rparr>" 1 "0x5000" "0x6000" False]
    sleeplock_acquire_release [of free_sleeplock 1 "0x5000" "0x6000" False]
  by (simp add: free_sleeplock_def sleeplock_init_def spinlock_init_def) blast

text \<open>\<^verbatim>\<open>sleeplock_holds\<close> compares the caller's pid with the low byte of the address of its process
  structure: after an uncontended acquire it holds exactly when the two happen to agree.\<close>

theorem sleeplock_holds_compares_address:
  assumes "locked (spin_lk l) = 0" "slocked l = 0"
  shows "\<exists>l1. sleeplock_acquire i lk procs_at (m, l, s) = Some (True, l1, s) \<and>
     (sleeplock_holds l1 s \<longleftrightarrow>
        ucast (procs_at + 152 * of_nat (tpidr_el1 s)) = pid (proc (tpidr_el1 s) s))"
  using sleeplock_acquire_free [OF assms]
  by (simp add: sleeplock_holds_def get_current_process_def process_address_def)

theorem sleeplock_holds_compares_address_witness:
  "\<exists>l1. sleeplock_acquire 1 0x5000 0x6000 (False, free_sleeplock, first_kernel) = Some (True, l1, first_kernel) \<and>
     \<not> sleeplock_holds l1 first_kernel"
  using sleeplock_holds_compares_address [of free_sleeplock 1 "0x5000" "0x6000" False first_kernel]
  by (simp add: free_sleeplock_def sleeplock_init_def spinlock_init_def first_kernel_def proc_def)

text \<open>C33: The sleep lock does not exclude: from the initial state, with one core holding the lock and two
  others contending for it, a run leads to both of these holding it at once, because \<^verbatim>\<open>sleep\<close> drops
  the spin lock and the loop goes on without it.\<close>

theorem sleeplock_two_holders:
  assumes "sleep_boot s0" "i \<noteq> j" "i \<noteq> k" "j \<noteq> k"
  shows "\<exists>s. (sleep_step lk procs_at)\<^sup>*\<^sup>* s0 s \<and> spcs s j = Holds \<and> spcs s k = Holds"
  using assms by (rule sleeplock_race)

theorem sleeplock_two_holders_witness:
  "\<exists>s. (sleep_step 0x5000 0x6000)\<^sup>*\<^sup>* first_sleep_sys s \<and> spcs s 1 = Holds \<and> spcs s 2 = Holds"
  by (rule sleeplock_two_holders [of _ 0])
     (simp_all add: sleep_boot_def first_sleep_sys_def free_sleeplock_def sleeplock_init_def spinlock_init_def)

end
