(* ===== verification/Pte.thy ===== *)
theory Pte
  imports Memory_Map
begin

text \<open>
  The page-table macros of \<^verbatim>\<open>kernel/vmem.c\<close> (lines 16--83): the index of each level in a virtual
  address, the setters and getters of the bits of an entry, and the five kinds of entry the
  kernel writes. The lemmas describe every entry bit by bit, so that the decoders are exact
  inverses of the encoders on physical addresses below \<open>2 ^ 36\<close>.
\<close>

unbundle bit_operations_syntax

section \<open>Virtual addresses\<close>

definition LVL_ADDR :: "u64 \<Rightarrow> nat \<Rightarrow> u64" where
  "LVL_ADDR addr level = drop_bit (39 - level * 9) addr AND 0x1FF"

definition OFFSET :: "u64 \<Rightarrow> u64" where
  "OFFSET addr = addr AND 0x1FF"

section \<open>Bits of an entry\<close>

definition SET_BIT :: "u64 \<Rightarrow> nat \<Rightarrow> u64 \<Rightarrow> u64" where
  "SET_BIT addr b val = (addr AND NOT (push_bit b 1)) OR push_bit b val"

definition GET_BIT :: "u64 \<Rightarrow> nat \<Rightarrow> u64" where
  "GET_BIT addr b = drop_bit b (addr AND push_bit b 1)"

definition SET_U_NON_EXEC :: "u64 \<Rightarrow> u64" where "SET_U_NON_EXEC addr = SET_BIT addr 54 0"
definition SET_U_EXEC :: "u64 \<Rightarrow> u64" where "SET_U_EXEC addr = SET_BIT addr 54 1"
definition GET_U_EXEC :: "u64 \<Rightarrow> u64" where "GET_U_EXEC addr = GET_BIT addr 54"
definition SET_K_NON_EXEC :: "u64 \<Rightarrow> u64" where "SET_K_NON_EXEC addr = SET_BIT addr 53 0"
definition SET_K_EXEC :: "u64 \<Rightarrow> u64" where "SET_K_EXEC addr = SET_BIT addr 53 1"

definition SET_PHYSICAL_ADDR :: "u64 \<Rightarrow> u64 \<Rightarrow> u64" where
  "SET_PHYSICAL_ADDR addr phys_addr =
     (addr AND NOT 0x0000FFFFFFFFF000) OR (push_bit 12 phys_addr AND 0x0000FFFFFFFFF000)"

definition GET_PHYSICAL_ADDR :: "u64 \<Rightarrow> u64" where
  "GET_PHYSICAL_ADDR addr = drop_bit 12 (addr AND 0x0000FFFFFFFFF000)"

definition SET_PAGE_SET :: "u64 \<Rightarrow> u64" where "SET_PAGE_SET addr = SET_BIT addr 10 1"
definition SET_PAGE_NOT_SET :: "u64 \<Rightarrow> u64" where "SET_PAGE_NOT_SET addr = SET_BIT addr 10 0"
definition GET_PAGE_SET :: "u64 \<Rightarrow> u64" where "GET_PAGE_SET addr = GET_BIT addr 10"
definition SET_RONLY :: "u64 \<Rightarrow> u64" where "SET_RONLY addr = SET_BIT addr 7 1"
definition SET_RW :: "u64 \<Rightarrow> u64" where "SET_RW addr = SET_BIT addr 7 0"
definition GET_RW :: "u64 \<Rightarrow> u64" where "GET_RW addr = GET_BIT addr 7"
definition SET_KACCES :: "u64 \<Rightarrow> u64" where "SET_KACCES addr = SET_BIT addr 6 0"
definition SET_KUACCES :: "u64 \<Rightarrow> u64" where "SET_KUACCES addr = SET_BIT addr 6 1"

definition SET_MAIR :: "u64 \<Rightarrow> u64 \<Rightarrow> u64" where
  "SET_MAIR addr index =
     SET_BIT (SET_BIT (SET_BIT addr 4 (1 AND drop_bit 2 index)) 3 (1 AND drop_bit 1 index)) 2
       (1 AND index)"

definition SET_NEXT_LEVEL_PTABLE :: "u64 \<Rightarrow> u64" where
  "SET_NEXT_LEVEL_PTABLE addr = SET_BIT (SET_BIT addr 1 1) 0 1"

definition SET_NEXT_LEVEL_PAGE :: "u64 \<Rightarrow> u64" where
  "SET_NEXT_LEVEL_PAGE addr = SET_BIT (SET_BIT addr 1 0) 0 1"

definition SET_NEXT_LEVEL_INVALID :: "u64 \<Rightarrow> u64" where
  "SET_NEXT_LEVEL_INVALID addr = SET_BIT (SET_BIT addr 1 0) 0 0"

definition GET_NEXT_LEVEL :: "u64 \<Rightarrow> u64" where
  "GET_NEXT_LEVEL addr = push_bit 1 (GET_BIT addr 1) OR GET_BIT addr 0"

section \<open>Entries\<close>

definition PGDPUD_ENTRY :: "u64 \<Rightarrow> u64 \<Rightarrow> u64" where
  "PGDPUD_ENTRY addr phys_addr =
     SET_K_NON_EXEC (SET_PAGE_SET (SET_U_NON_EXEC (SET_NEXT_LEVEL_PAGE
       (SET_PHYSICAL_ADDR addr phys_addr))))"

definition PMD_ENTRY :: "u64 \<Rightarrow> u64 \<Rightarrow> u64" where
  "PMD_ENTRY addr phys_addr =
     SET_K_NON_EXEC (SET_PAGE_SET (SET_U_NON_EXEC (SET_NEXT_LEVEL_PAGE
       (SET_PHYSICAL_ADDR addr phys_addr))))"

definition KERNEL_ENTRY :: "u64 \<Rightarrow> u64 \<Rightarrow> u64" where
  "KERNEL_ENTRY addr phys_addr =
     SET_K_EXEC (SET_U_NON_EXEC (SET_PAGE_SET (SET_KACCES (SET_MAIR (SET_NEXT_LEVEL_INVALID
       (SET_PHYSICAL_ADDR addr phys_addr)) 1))))"

definition DEVICE_ENTRY :: "u64 \<Rightarrow> u64 \<Rightarrow> u64" where
  "DEVICE_ENTRY addr phys_addr =
     SET_K_EXEC (SET_U_NON_EXEC (SET_PAGE_SET (SET_RW (SET_KACCES (SET_MAIR
       (SET_NEXT_LEVEL_INVALID (SET_PHYSICAL_ADDR addr phys_addr)) 0)))))"

definition USER_ENTRY :: "u64 \<Rightarrow> u64 \<Rightarrow> u64" where
  "USER_ENTRY addr phys_addr =
     SET_K_EXEC (SET_U_EXEC (SET_PAGE_SET (SET_RW (SET_KUACCES (SET_MAIR
       (SET_NEXT_LEVEL_INVALID (SET_PHYSICAL_ADDR addr phys_addr)) 1)))))"

definition INVALID_ENTRY :: "u64 \<Rightarrow> u64" where
  "INVALID_ENTRY addr = SET_PAGE_NOT_SET (SET_PHYSICAL_ADDR addr 0)"

definition PENTRY_CNT :: nat where
  "PENTRY_CNT = 512"

lemmas pte_defs =
  SET_U_NON_EXEC_def SET_U_EXEC_def SET_K_NON_EXEC_def SET_K_EXEC_def SET_PAGE_SET_def
  SET_PAGE_NOT_SET_def SET_RONLY_def SET_RW_def SET_KACCES_def SET_KUACCES_def SET_MAIR_def
  SET_NEXT_LEVEL_PTABLE_def SET_NEXT_LEVEL_PAGE_def SET_NEXT_LEVEL_INVALID_def

lemmas entry_defs =
  PGDPUD_ENTRY_def PMD_ENTRY_def KERNEL_ENTRY_def DEVICE_ENTRY_def USER_ENTRY_def

section \<open>Lemmas\<close>

lemma bit_SET_BIT_0: "bit (SET_BIT a b 0) n \<longleftrightarrow> n \<noteq> b \<and> bit a n"
  by (auto simp: SET_BIT_def bit_simps dest: bit_imp_le_length)

lemma bit_SET_BIT_1: "bit (SET_BIT a b 1) n \<longleftrightarrow> (n = b \<and> b < 64) \<or> bit a n"
  by (auto simp: SET_BIT_def bit_simps dest: bit_imp_le_length)

lemma GET_BIT_bit: "b < 64 \<Longrightarrow> GET_BIT a b = of_bool (bit a b)"
  by (rule bit_word_eqI) (auto simp: GET_BIT_def bit_simps)

lemma GET_PAGE_SET_bit: "GET_PAGE_SET e = of_bool (bit e 10)"
  by (simp add: GET_PAGE_SET_def GET_BIT_bit)

lemma phys_mask: "(0x0000FFFFFFFFF000 :: u64) = push_bit 12 (mask 36)"
  by (simp add: mask_eq_exp_minus_1 push_bit_eq_mult)

lemma GET_PHYSICAL_ADDR_eq: "GET_PHYSICAL_ADDR e = take_bit 36 (drop_bit 12 e)"
  unfolding GET_PHYSICAL_ADDR_def phys_mask
  by (rule bit_word_eqI) (auto simp: bit_simps)

lemma bit_SET_PHYSICAL_ADDR:
  "bit (SET_PHYSICAL_ADDR 0 pa) n \<longleftrightarrow> 12 \<le> n \<and> n < 48 \<and> bit pa (n - 12)"
  unfolding SET_PHYSICAL_ADDR_def phys_mask
  by (auto simp: bit_simps)

text \<open>The bits of each kind of entry, built from the zero entry.\<close>

lemma bit_PGDPUD_ENTRY:
  "bit (PGDPUD_ENTRY 0 pa) n \<longleftrightarrow> n = 0 \<or> n = 10 \<or> 12 \<le> n \<and> n < 48 \<and> bit pa (n - 12)"
  by (auto simp: PGDPUD_ENTRY_def pte_defs bit_SET_BIT_0 bit_SET_BIT_1 bit_SET_PHYSICAL_ADDR)

lemma PMD_ENTRY_PGDPUD: "PMD_ENTRY a pa = PGDPUD_ENTRY a pa"
  by (simp add: PMD_ENTRY_def PGDPUD_ENTRY_def)

lemma bit_KERNEL_ENTRY:
  "bit (KERNEL_ENTRY 0 pa) n \<longleftrightarrow>
     n = 2 \<or> n = 10 \<or> n = 53 \<or> 12 \<le> n \<and> n < 48 \<and> bit pa (n - 12)"
  by (auto simp: KERNEL_ENTRY_def pte_defs bit_SET_BIT_0 bit_SET_BIT_1 bit_SET_PHYSICAL_ADDR)

lemma bit_DEVICE_ENTRY:
  "bit (DEVICE_ENTRY 0 pa) n \<longleftrightarrow> n = 10 \<or> n = 53 \<or> 12 \<le> n \<and> n < 48 \<and> bit pa (n - 12)"
  by (auto simp: DEVICE_ENTRY_def pte_defs bit_SET_BIT_0 bit_SET_BIT_1 bit_SET_PHYSICAL_ADDR)

lemma bit_USER_ENTRY:
  "bit (USER_ENTRY 0 pa) n \<longleftrightarrow>
     n = 2 \<or> n = 6 \<or> n = 10 \<or> n = 53 \<or> n = 54 \<or> 12 \<le> n \<and> n < 48 \<and> bit pa (n - 12)"
  by (auto simp: USER_ENTRY_def pte_defs bit_SET_BIT_0 bit_SET_BIT_1 bit_SET_PHYSICAL_ADDR)

lemmas entry_bits = bit_PGDPUD_ENTRY bit_KERNEL_ENTRY bit_DEVICE_ENTRY bit_USER_ENTRY

text \<open>Every entry reads back as set, and as holding the low 36 bits of its physical address.\<close>

lemma entry_page_set [simp]:
  "bit (PGDPUD_ENTRY 0 pa) 10" "bit (PMD_ENTRY 0 pa) 10" "bit (KERNEL_ENTRY 0 pa) 10"
  "bit (DEVICE_ENTRY 0 pa) 10" "bit (USER_ENTRY 0 pa) 10"
  by (simp_all add: entry_bits PMD_ENTRY_PGDPUD)

lemma phys_of_bits:
  assumes "\<And>n. 12 \<le> n \<Longrightarrow> n < 48 \<Longrightarrow> bit e n \<longleftrightarrow> bit pa (n - 12)"
  shows "GET_PHYSICAL_ADDR e = take_bit 36 pa"
  by (rule bit_word_eqI) (auto simp: GET_PHYSICAL_ADDR_eq bit_simps assms)

lemma entry_phys [simp]:
  "GET_PHYSICAL_ADDR (PGDPUD_ENTRY 0 pa) = take_bit 36 pa"
  "GET_PHYSICAL_ADDR (PMD_ENTRY 0 pa) = take_bit 36 pa"
  "GET_PHYSICAL_ADDR (KERNEL_ENTRY 0 pa) = take_bit 36 pa"
  "GET_PHYSICAL_ADDR (DEVICE_ENTRY 0 pa) = take_bit 36 pa"
  "GET_PHYSICAL_ADDR (USER_ENTRY 0 pa) = take_bit 36 pa"
  by (rule phys_of_bits; simp add: entry_bits PMD_ENTRY_PGDPUD)+

lemma take_bit_36_eq: "pa < 0x1000000000 \<Longrightarrow> take_bit 36 (pa :: u64) = pa"
  by (simp add: word_eq_iff_unsigned [where ?'a = nat] word_less_nat_alt take_bit_eq_mod unat_mod)

lemma LVL_ADDR_less: "LVL_ADDR va l < 512"
proof -
  have "LVL_ADDR va l \<le> 0x1FF" unfolding LVL_ADDR_def by (rule word_and_le1)
  also have "\<dots> < (512 :: u64)" by simp
  finally show ?thesis .
qed

lemma bit_LVL_ADDR: "bit (LVL_ADDR v l) n \<longleftrightarrow> n < 9 \<and> bit v (39 - l * 9 + n)"
proof -
  have "LVL_ADDR v l = take_bit 9 (drop_bit (39 - l * 9) v)"
    by (simp add: LVL_ADDR_def take_bit_eq_mask mask_eq_exp_minus_1)
  then show ?thesis by (simp add: bit_simps)
qed

section \<open>Properties\<close>

text \<open>
  C16: every kind of page-table entry decodes to the physical address it was built from and is
  marked present, for physical addresses below \<open>2 ^ 36\<close>.
\<close>

theorem entry_roundtrip:
  assumes "pa < 0x1000000000" and "mk \<in> {PGDPUD_ENTRY, PMD_ENTRY, KERNEL_ENTRY, DEVICE_ENTRY, USER_ENTRY}"
  shows "GET_PHYSICAL_ADDR (mk 0 pa) = pa \<and> GET_PAGE_SET (mk 0 pa) = 1"
  using assms by (auto simp: take_bit_36_eq GET_PAGE_SET_bit)

theorem entry_roundtrip_witness:
  "GET_PHYSICAL_ADDR (USER_ENTRY 0 0x3EFFF000) = 0x3EFFF000 \<and> GET_PAGE_SET (USER_ENTRY 0 0x3EFFF000) = 1"
  using entry_roundtrip [of "0x3EFFF000" USER_ENTRY] by simp

text \<open>
  The descriptor type bits. A table entry always carries the type \<open>01\<close>, which the source's
  comment gives to pages, and a leaf entry (kernel, device or user) always carries the type \<open>00\<close>,
  which the comment gives to invalid entries.
\<close>

theorem entry_descriptor_types:
  "GET_NEXT_LEVEL (PGDPUD_ENTRY 0 pa) = 1 \<and> GET_NEXT_LEVEL (PMD_ENTRY 0 pa) = 1 \<and>
   GET_NEXT_LEVEL (KERNEL_ENTRY 0 pa) = 0 \<and> GET_NEXT_LEVEL (DEVICE_ENTRY 0 pa) = 0 \<and>
   GET_NEXT_LEVEL (USER_ENTRY 0 pa) = 0"
  by (simp add: GET_NEXT_LEVEL_def GET_BIT_bit entry_bits PMD_ENTRY_PGDPUD)

text \<open>
  The address field. The architecture takes bits 12 to 47 of an entry, in place, as the address it points
  to; the entry macros shift the address they are given by another 12 bits before they store it, so
  the field holds 4096 times the address.
\<close>

theorem entry_address_field:
  assumes "pa < 0x1000000000" and "mk \<in> {PGDPUD_ENTRY, PMD_ENTRY, KERNEL_ENTRY, DEVICE_ENTRY, USER_ENTRY}"
  shows "mk 0 pa AND 0x0000FFFFFFFFF000 = push_bit 12 pa"
proof (rule bit_word_eqI)
  fix n assume n: "n < LENGTH(64)"
  have "n - 12 < 36" if "bit pa (n - 12)"
    using that take_bit_36_eq [OF assms(1)] by (metis bit_take_bit_iff)
  then have "n < 48" "n - 12 < 36" if "12 \<le> n" "bit pa (n - 12)" using that by auto
  then show "bit (mk 0 pa AND 0x0000FFFFFFFFF000) n = bit (push_bit 12 pa) n"
    using assms(2) n unfolding phys_mask by (auto simp: entry_bits PMD_ENTRY_PGDPUD bit_simps)
qed

end
