(* ===== verification/Vmem.thy ===== *)
theory Vmem
  imports Pte Kalloc Strings
begin

text \<open>
  The functions of \<^verbatim>\<open>kernel/vmem.c\<close> over the byte memory, and the correctness of
  \<^verbatim>\<open>get_physical_page\<close>. A page table is 512 entries of eight bytes in one page; a pointer to it is
  its address. Each function takes and returns the kernel memory \<open>kmem\<close>.

  The specification is \<open>translate\<close>, the four-level walk that the code performs when nothing is
  missing. \<open>pt_wf\<close> is the invariant: tables are page aligned, no table is a free frame, and no
  table is reached by two different index paths.
\<close>

section \<open>Mapping pages\<close>

definition given_entry :: "u8 \<Rightarrow> u64 \<Rightarrow> u64 option" where
  "given_entry kind pa =
     (if kind = 0 then Some (PGDPUD_ENTRY 0 pa)
      else if kind = 1 then Some (DEVICE_ENTRY 0 pa)
      else if kind = 2 then Some (USER_ENTRY 0 pa)
      else None)"

definition new_entry :: "nat \<Rightarrow> u8 \<Rightarrow> u64 \<Rightarrow> u64 option" where
  "new_entry i kind frame =
     (if i = 0 \<or> i = 1 then Some (PGDPUD_ENTRY 0 frame)
      else if i = 2 then Some (PMD_ENTRY 0 frame)
      else if i = 3 then
        (if kind = 0 then Some (KERNEL_ENTRY 0 frame)
         else if kind = 1 then Some (DEVICE_ENTRY 0 frame)
         else if kind = 2 then Some (USER_ENTRY 0 frame)
         else None)
      else None)"

definition get_physical_page_step ::
  "nat \<Rightarrow> u64 \<Rightarrow> u64 \<Rightarrow> u64 \<Rightarrow> u8 \<Rightarrow> 'a kmem_scheme \<Rightarrow> (u64 + u64) \<times> 'a kmem_scheme" where
  "get_physical_page_step i pagetable va pa kind s =
     (let a = slot pagetable (LVL_ADDR va i);
          descend = (\<lambda>s. (Inr (GET_PHYSICAL_ADDR (load64 (mem s) a)), s))
      in if GET_PAGE_SET (load64 (mem s) a) = 0
         then if i = 3 \<and> pa \<noteq> 0
              then (case given_entry kind pa of
                      None \<Rightarrow> (Inl 0, s)
                    | Some pentry \<Rightarrow> (Inl pa, s\<lparr>mem := store64 (mem s) a pentry\<rparr>))
              else (case kalloc s of
                      (None, s1) \<Rightarrow> (Inl 0, s1)
                    | (Some frame, s1) \<Rightarrow>
                        (case new_entry i kind frame of
                           None \<Rightarrow> (Inl 0, kfree (Var frame) s1)
                         | Some pentry \<Rightarrow> descend (s1\<lparr>mem := store64 (mem s1) a pentry\<rparr>)))
         else descend s)"

function get_physical_page_loop ::
  "nat \<Rightarrow> u64 \<Rightarrow> u64 \<Rightarrow> u64 \<Rightarrow> u8 \<Rightarrow> 'a kmem_scheme \<Rightarrow> u64 \<times> 'a kmem_scheme" where
  "get_physical_page_loop i pagetable va pa kind s =
     (if i \<le> 3
      then (case get_physical_page_step i pagetable va pa kind s of
              (Inl r, s') \<Rightarrow> (r, s')
            | (Inr next, s') \<Rightarrow> get_physical_page_loop (i + 1) next va pa kind s')
      else (pagetable, s))"
  by pat_completeness auto
termination
  by (relation "measure (\<lambda>(i, _). 4 - i)") auto

declare get_physical_page_loop.simps [simp del]

definition get_physical_page ::
  "u64 \<Rightarrow> u64 \<Rightarrow> u64 \<Rightarrow> u8 \<Rightarrow> 'a kmem_scheme \<Rightarrow> u64 \<times> 'a kmem_scheme" where
  "get_physical_page pagetable va pa kind s = get_physical_page_loop 0 pagetable va pa kind s"

definition map_page ::
  "u64 \<Rightarrow> u64 \<Rightarrow> u64 \<Rightarrow> u8 \<Rightarrow> 'a kmem_scheme \<Rightarrow> int \<times> 'a kmem_scheme" where
  "map_page pagetable va pa kind s =
     (let (frame, s') = get_physical_page pagetable va pa kind s
      in (if frame = 0 then -1 else 0, s'))"

text \<open>
  \<^verbatim>\<open>free_page\<close>: \<open>levels\<close> is the array of the same name, filled one element per iteration of the
  first loop; the test of that loop reads \<^verbatim>\<open>levels[0]\<close>, as the code does. The macro does not put its argument
  \<^verbatim>\<open>level\<close> in parentheses, so \<^verbatim>\<open>LVL_ADDR(va,i-1)\<close> shifts by \<^verbatim>\<open>39 - (i-1*9)\<close>, which is \<^verbatim>\<open>48 - i\<close>. The calls
  \<^verbatim>\<open>kfree(levels[i])\<close> pass the table or frame itself where \<open>kfree\<close> takes a pointer to a pointer.
  The second loop runs \<open>i\<close> downwards from 3.
\<close>

definition free_index :: "u64 \<Rightarrow> nat \<Rightarrow> u64" where
  "free_index va i = drop_bit (48 - i) va AND 0x1FF"

function free_page_descend :: "memory \<Rightarrow> u64 \<Rightarrow> u64 list \<Rightarrow> nat \<Rightarrow> u64 list option" where
  "free_page_descend m va levels i =
     (if i < 5
      then if GET_PAGE_SET (load64 m (slot (levels ! 0) (free_index va i))) = 0 then None
           else free_page_descend m va
                  (levels @ [GET_PHYSICAL_ADDR (load64 m (slot (levels ! (i - 1)) (free_index va i)))])
                  (i + 1)
      else Some levels)"
  by pat_completeness auto
termination
  by (relation "measure (\<lambda>(_, _, _, i). 5 - i)") auto

declare free_page_descend.simps [simp del]

definition table_in_use :: "memory \<Rightarrow> u64 \<Rightarrow> bool" where
  "table_in_use m t =
     list_ex (\<lambda>j. GET_PAGE_SET (load64 m (slot t (of_nat j))) \<noteq> 0) [0..<PENTRY_CNT]"

primrec free_page_ascend :: "u64 list \<Rightarrow> u64 \<Rightarrow> nat \<Rightarrow> 'a kmem_scheme \<Rightarrow> 'a kmem_scheme" where
  "free_page_ascend levels va 0 s = s"
| "free_page_ascend levels va (Suc i) s =
     (let s1 = s\<lparr>mem := store64 (mem s) (slot (levels ! i) (LVL_ADDR va i)) 0\<rparr>
      in if table_in_use (mem s1) (levels ! i) then s1
         else free_page_ascend levels va i (kfree (At (levels ! i)) s1))"

definition free_page :: "u64 \<Rightarrow> u64 \<Rightarrow> 'a kmem_scheme \<Rightarrow> 'a kmem_scheme" where
  "free_page pagetable va s =
     (case free_page_descend (mem s) va [pagetable] 1 of
        None \<Rightarrow> s
      | Some levels \<Rightarrow> free_page_ascend levels va 4 (kfree (At (levels ! 4)) s))"

text \<open>
  \<^verbatim>\<open>unmap_region\<close> and \<^verbatim>\<open>map_region\<close> loop on 64-bit addresses; \<open>None\<close> is a loop that never ends.
  \<^verbatim>\<open>map_region\<close> has no \<^verbatim>\<open>return\<close> after its loop: the result \<open>Some v\<close> is \<^verbatim>\<open>return v\<close>, the result
  \<open>None\<close> is the end of the function, where the caller reads whatever the return register holds.
\<close>

partial_function (option) unmap_region ::
  "u64 \<Rightarrow> u64 \<Rightarrow> u64 \<Rightarrow> 'a kmem_scheme \<Rightarrow> 'a kmem_scheme option" where
  "unmap_region pagetable va_start va_end s =
     (if va_start < va_end
      then unmap_region pagetable (va_start + PageSize) va_end (free_page pagetable va_start s)
      else Some s)"

declare unmap_region.simps [code]

partial_function (option) map_region_loop ::
  "u64 \<Rightarrow> u64 \<Rightarrow> u64 \<Rightarrow> u64 \<Rightarrow> u64 \<Rightarrow> u8 \<Rightarrow> 'a kmem_scheme \<Rightarrow> (int option \<times> 'a kmem_scheme) option" where
  "map_region_loop pagetable va_start va_end va_curr pa_start kind s =
     (if va_curr < va_end
      then (case map_page pagetable va_curr pa_start kind s of
              (r, s1) \<Rightarrow>
                if r = -1
                then (case unmap_region pagetable va_start va_curr s1 of
                        None \<Rightarrow> None
                      | Some s2 \<Rightarrow> Some (Some (-1), s2))
                else map_region_loop pagetable va_start va_end (va_curr + PageSize)
                       (pa_start + PageSize) kind s1)
      else Some (None, s))"

declare map_region_loop.simps [code]

definition map_region ::
  "u64 \<Rightarrow> u64 \<Rightarrow> u64 \<Rightarrow> u64 \<Rightarrow> u8 \<Rightarrow> 'a kmem_scheme \<Rightarrow> (int option \<times> 'a kmem_scheme) option" where
  "map_region pagetable va_start pa_start sz kind s =
     (if va_start mod PageSize \<noteq> 0 \<or> (va_start + sz) mod PageSize \<noteq> 0 \<or> pa_start mod PageSize \<noteq> 0
      then Some (Some (-1), s)
      else map_region_loop pagetable va_start (va_start + sz) va_start pa_start kind s)"

text \<open>
  \<^verbatim>\<open>free_pagetable\<close>: four nested loops over the entries of the tables of each level.
  \<open>free_children d\<close> is the loop over a table with \<open>d\<close> more loops inside it.
\<close>

primrec free_children :: "nat \<Rightarrow> u64 \<Rightarrow> 'a kmem_scheme \<Rightarrow> 'a kmem_scheme" where
  "free_children 0 t s =
     fold (\<lambda>i s. let e = load64 (mem s) (slot t (of_nat i))
                 in if GET_PAGE_SET e = 0 then s else kfree (At (GET_PHYSICAL_ADDR e)) s)
       [0..<PENTRY_CNT] s"
| "free_children (Suc d) t s =
     fold (\<lambda>i s. let e = load64 (mem s) (slot t (of_nat i)); child = GET_PHYSICAL_ADDR e
                 in if GET_PAGE_SET e = 0 then s
                    else kfree (At child) (free_children d child s))
       [0..<PENTRY_CNT] s"

definition free_pagetable :: "u64 \<Rightarrow> 'a kmem_scheme \<Rightarrow> 'a kmem_scheme" where
  "free_pagetable pagetable s = kfree (At pagetable) (free_children 3 pagetable s)"

text \<open>
  \<^verbatim>\<open>make_kpagetable\<close>: \<open>kstart\<close> and \<open>kend\<close> are the addresses of the linker symbols \<^verbatim>\<open>_start\<close> and
  \<^verbatim>\<open>_end\<close>; \<open>junk1\<close> and \<open>junk2\<close> are what the return register holds after a call of \<^verbatim>\<open>map_region\<close>
  that ends without \<^verbatim>\<open>return\<close>.
\<close>

definition returned :: "int \<Rightarrow> int option \<Rightarrow> int" where
  "returned junk r = (case r of Some v \<Rightarrow> v | None \<Rightarrow> junk)"

definition make_kpagetable ::
  "u64 \<Rightarrow> u64 \<Rightarrow> int \<Rightarrow> int \<Rightarrow> 'a kmem_scheme \<Rightarrow> (u64 \<times> 'a kmem_scheme) option" where
  "make_kpagetable kstart kend junk1 junk2 s =
     (case kalloc s of
        (None, s1) \<Rightarrow> Some (0, s1)
      | (Some kpagetable, s1) \<Rightarrow>
          (let va_start = VKERN_START + kstart;
               va_end = VKERN_START + kend;
               mmio_memory = MMIO_BASE - VKERN_START
           in case map_region kpagetable va_start kstart (va_end - va_start) 0 s1 of
                None \<Rightarrow> None
              | Some (r1, s2) \<Rightarrow>
                  if returned junk1 r1 = -1 then Some (0, s2)
                  else (case map_region kpagetable MMIO_BASE mmio_memory (MMIO_END - MMIO_BASE) 1 s2 of
                          None \<Rightarrow> None
                        | Some (r2, s3) \<Rightarrow>
                            if returned junk2 r2 = -1 then Some (0, s3) else Some (kpagetable, s3))))"

text \<open>
  \<^verbatim>\<open>clone_pagetable(from, to)\<close>. The array \<^verbatim>\<open>tos\<close> is in memory, at \<open>tos\<close>, because the code stores
  its address in its own first element; \<open>tos_at\<close> reads an element. The variable \<^verbatim>\<open>frame\<close> is never
  assigned: \<open>frame\<close> is its indeterminate value, which \<^verbatim>\<open>kalloc(frame)\<close> uses as the address to
  store the allocated page in. \<open>Inl s\<close> is the early \<^verbatim>\<open>return -1\<close>, \<open>Inr s\<close> the rest of the loop.
\<close>

primrec for_each :: "(nat \<Rightarrow> 's \<Rightarrow> 's + 's) \<Rightarrow> nat list \<Rightarrow> 's \<Rightarrow> 's + 's" where
  "for_each body [] s = Inr s"
| "for_each body (i # is) s =
     (case body i s of Inl s' \<Rightarrow> Inl s' | Inr s' \<Rightarrow> for_each body is s')"

definition kalloc_at :: "u64 \<Rightarrow> 'a kmem_scheme \<Rightarrow> int \<times> 'a kmem_scheme" where
  "kalloc_at page s =
     (case kalloc s of
        (None, s1) \<Rightarrow> (-1, s1)
      | (Some f, s1) \<Rightarrow> (0, s1\<lparr>mem := store64 (mem s1) page f\<rparr>))"

definition tos_at :: "u64 \<Rightarrow> nat \<Rightarrow> 'a kmem_scheme \<Rightarrow> u64" where
  "tos_at tos k s = load64 (mem s) (slot tos (of_nat k))"

definition clone_leaf :: "u64 \<Rightarrow> u64 \<Rightarrow> u64 \<Rightarrow> nat \<Rightarrow> 'a kmem_scheme \<Rightarrow> 'a kmem_scheme + 'a kmem_scheme" where
  "clone_leaf to tos frame l s =
     (let e = load64 (mem s) (slot (tos_at tos 3 s) (of_nat l)); from4 = GET_PHYSICAL_ADDR e
      in if GET_PAGE_SET e = 0 then Inr s
         else (case kalloc_at frame s of
                 (r, s1) \<Rightarrow>
                   if r = -1 then Inl (free_pagetable to s1)
                   else (let s2 = s1\<lparr>mem := store64 (mem s1) (slot (tos_at tos 3 s1) (of_nat l))
                                            (PGDPUD_ENTRY 0 frame)\<rparr>;
                             s3 = s2\<lparr>mem := store64 (mem s2) (slot tos 4) frame\<rparr>
                         in Inr (s3\<lparr>mem := strcpy from4 (tos_at tos 4 s3) PageSize (mem s3)\<rparr>))))"

primrec clone_table ::
  "nat \<Rightarrow> u64 \<Rightarrow> u64 \<Rightarrow> u64 \<Rightarrow> u64 \<Rightarrow> 'a kmem_scheme \<Rightarrow> 'a kmem_scheme + 'a kmem_scheme" where
  "clone_table 0 from to tos frame s = for_each (clone_leaf to tos frame) [0..<PENTRY_CNT] s"
| "clone_table (Suc d) from to tos frame s =
     for_each (\<lambda>i s.
       let k = 2 - d;
           e = load64 (mem s) (slot from (of_nat i)); child = GET_PHYSICAL_ADDR e
       in if GET_PAGE_SET e = 0 then Inr s
          else (case kalloc_at frame s of
                  (r, s1) \<Rightarrow>
                    if r = -1 then Inl (free_pagetable to s1)
                    else (let s2 = s1\<lparr>mem := strcpy child (tos_at tos (k + 1) s1) PageSize (mem s1)\<rparr>;
                              s3 = s2\<lparr>mem := store64 (mem s2) (slot (tos_at tos k s2) (of_nat i))
                                             (PGDPUD_ENTRY 0 frame)\<rparr>;
                              s4 = s3\<lparr>mem := store64 (mem s3) (slot tos (of_nat (k + 1))) frame\<rparr>
                          in clone_table d child to tos frame s4)))
       [0..<PENTRY_CNT] s"

definition clone_pagetable ::
  "u64 \<Rightarrow> u64 \<Rightarrow> u64 \<Rightarrow> u64 \<Rightarrow> 'a kmem_scheme \<Rightarrow> int \<times> 'a kmem_scheme" where
  "clone_pagetable tos frame from to s =
     (let s1 = s\<lparr>mem := store64 (mem s) (slot tos 0) tos\<rparr>;
          s2 = s1\<lparr>mem := strcpy from (tos_at tos 0 s1) PageSize (mem s1)\<rparr>
      in case clone_table 3 from to tos frame s2 of
           Inl s3 \<Rightarrow> (-1, s3)
         | Inr s3 \<Rightarrow> (0, s3))"

text \<open>
  \<^verbatim>\<open>copy_from_user\<close> and \<^verbatim>\<open>copy_to_user\<close>: \<^verbatim>\<open>va\<close> is declared as a pointer to \<^verbatim>\<open>uint64_t\<close>, so that
  \<^verbatim>\<open>va += PageSize\<close> advances it by eight pages; \<^verbatim>\<open>size\<close> is unsigned, so that \<^verbatim>\<open>size > 0\<close> fails only
  at zero.
\<close>

partial_function (option) copy_from_user_loop ::
  "u64 \<Rightarrow> u64 \<Rightarrow> u64 \<Rightarrow> u64 \<Rightarrow> 'a kmem_scheme \<Rightarrow> 'a kmem_scheme option" where
  "copy_from_user_loop user_pgtb va to sz s =
     (if sz > 0
      then (let va = va + 8 * PageSize; to = to + sz;
                (frame, s1) = get_physical_page user_pgtb va 0 2 s
            in copy_from_user_loop user_pgtb va to (sz - PageSize)
                 (s1\<lparr>mem := strcpy frame to sz (mem s1)\<rparr>))
      else Some s)"

declare copy_from_user_loop.simps [code]

definition copy_from_user ::
  "u64 \<Rightarrow> u64 \<Rightarrow> u64 \<Rightarrow> u64 \<Rightarrow> 'a kmem_scheme \<Rightarrow> 'a kmem_scheme option" where
  "copy_from_user user_pgtb from to sz s =
     (let va = (from div PageSize) * PageSize;
          from = from mod PageSize;
          (frame, s1) = get_physical_page user_pgtb va 0 2 s;
          from = frame + from;
          s2 = s1\<lparr>mem := strcpy from to sz (mem s1)\<rparr>
      in if from mod PageSize + sz < PageSize then Some s2
         else copy_from_user_loop user_pgtb va to (sz - PageSize + from) s2)"

partial_function (option) copy_to_user_loop ::
  "u64 \<Rightarrow> u64 \<Rightarrow> u64 \<Rightarrow> u64 \<Rightarrow> 'a kmem_scheme \<Rightarrow> 'a kmem_scheme option" where
  "copy_to_user_loop user_pgtb va from sz s =
     (if sz > 0
      then (let va = va + 8 * PageSize; from = from + sz;
                (frame, s1) = get_physical_page user_pgtb va 0 2 s
            in copy_to_user_loop user_pgtb va from (sz - PageSize)
                 (s1\<lparr>mem := strcpy from frame sz (mem s1)\<rparr>))
      else Some s)"

declare copy_to_user_loop.simps [code]

definition copy_to_user ::
  "u64 \<Rightarrow> u64 \<Rightarrow> u64 \<Rightarrow> u64 \<Rightarrow> 'a kmem_scheme \<Rightarrow> 'a kmem_scheme option" where
  "copy_to_user user_pgtb from to sz s =
     (let va = (to div PageSize) * PageSize;
          to = to mod PageSize;
          (frame, s1) = get_physical_page user_pgtb va 0 2 s;
          to = frame + to;
          s2 = s1\<lparr>mem := strcpy from to sz (mem s1)\<rparr>
      in if from mod PageSize + sz < PageSize then Some s2
         else copy_to_user_loop user_pgtb va from (sz - PageSize + to) s2)"

section \<open>Walks\<close>

definition entry :: "memory \<Rightarrow> u64 \<Rightarrow> u64 \<Rightarrow> u64 option" where
  "entry m t i =
     (let e = load64 m (slot t i) in if bit e 10 then Some (GET_PHYSICAL_ADDR e) else None)"

primrec walk :: "memory \<Rightarrow> u64 \<Rightarrow> u64 list \<Rightarrow> u64 option" where
  "walk m t [] = Some t"
| "walk m t (i # p) = (case entry m t i of None \<Rightarrow> None | Some t' \<Rightarrow> walk m t' p)"

definition va_path :: "u64 \<Rightarrow> u64 list" where
  "va_path va = [LVL_ADDR va 0, LVL_ADDR va 1, LVL_ADDR va 2, LVL_ADDR va 3]"

definition translate :: "memory \<Rightarrow> u64 \<Rightarrow> u64 \<Rightarrow> u64 option" where
  "translate m pt va = walk m pt (va_path va)"

definition is_path :: "u64 list \<Rightarrow> bool" where
  "is_path p \<longleftrightarrow> list_all (\<lambda>i. i < 512) p"

definition pt_wf :: "'a kmem_scheme \<Rightarrow> u64 \<Rightarrow> u64 list \<Rightarrow> bool" where
  "pt_wf s pt fs \<longleftrightarrow>
     frames s fs \<and> (\<forall>f\<in>set fs. f < 0x1000000000) \<and>
     (\<forall>p a. is_path p \<and> length p \<le> 3 \<and> walk (mem s) pt p = Some a \<longrightarrow>
        page_aligned a \<and> a \<notin> set fs) \<and>
     (\<forall>p q a. is_path p \<and> length p \<le> 3 \<and> is_path q \<and> length q \<le> 3 \<and>
        walk (mem s) pt p = Some a \<and> walk (mem s) pt q = Some a \<longrightarrow> p = q)"

section \<open>Lemmas\<close>

lemma walk_append:
  "walk m t (p @ q) = (case walk m t p of None \<Rightarrow> None | Some t' \<Rightarrow> walk m t' q)"
  by (induction p arbitrary: t) (auto split: option.splits)

lemma walk_snoc:
  "walk m t (p @ [i]) = (case walk m t p of None \<Rightarrow> None | Some t' \<Rightarrow> entry m t' i)"
  by (auto simp: walk_append split: option.splits)

lemma walk_cong:
  assumes "\<And>r i q a. p = r @ i # q \<Longrightarrow> walk m t r = Some a \<Longrightarrow> entry m' a i = entry m a i"
  shows "walk m' t p = walk m t p"
  using assms
proof (induction p arbitrary: t)
  case (Cons i p)
  have e: "entry m' t i = entry m t i" by (rule Cons.prems [of "[]"]) simp_all
  show ?case
  proof (cases "entry m t i")
    case (Some t')
    have "walk m' t' p = walk m t' p"
      by (rule Cons.IH) (use Some in \<open>auto intro!: Cons.prems [of "i # r" for r]\<close>)
    with Some e show ?thesis by simp
  qed (simp add: e)
qed simp

lemma entry_cong: "load64 m' (slot t i) = load64 m (slot t i) \<Longrightarrow> entry m' t i = entry m t i"
  by (simp add: entry_def)

lemma pt_wfD:
  assumes "pt_wf s pt fs"
  shows "frames s fs" "\<And>f. f \<in> set fs \<Longrightarrow> f < 0x1000000000"
    "\<And>p a. is_path p \<Longrightarrow> length p \<le> 3 \<Longrightarrow> walk (mem s) pt p = Some a \<Longrightarrow> page_aligned a"
    "\<And>p a. is_path p \<Longrightarrow> length p \<le> 3 \<Longrightarrow> walk (mem s) pt p = Some a \<Longrightarrow> a \<notin> set fs"
    "\<And>p q a. is_path p \<Longrightarrow> length p \<le> 3 \<Longrightarrow> is_path q \<Longrightarrow> length q \<le> 3 \<Longrightarrow>
        walk (mem s) pt p = Some a \<Longrightarrow> walk (mem s) pt q = Some a \<Longrightarrow> p = q"
  using assms unfolding pt_wf_def by blast+

lemma pt_wfI:
  assumes "frames s fs" "\<And>f. f \<in> set fs \<Longrightarrow> f < 0x1000000000"
    and "\<And>p a. is_path p \<Longrightarrow> length p \<le> 3 \<Longrightarrow> walk (mem s) pt p = Some a \<Longrightarrow>
      page_aligned a \<and> a \<notin> set fs"
    and "\<And>p q a. is_path p \<Longrightarrow> length p \<le> 3 \<Longrightarrow> is_path q \<Longrightarrow> length q \<le> 3 \<Longrightarrow>
      walk (mem s) pt p = Some a \<Longrightarrow> walk (mem s) pt q = Some a \<Longrightarrow> p = q"
  shows "pt_wf s pt fs"
  unfolding pt_wf_def using assms by blast

lemma pt_wf_transfer:
  assumes wf: "pt_wf s pt fs0" and fs: "set fs \<subseteq> set fs0" "frames s' fs"
    and eq: "\<And>p. is_path p \<Longrightarrow> length p \<le> 3 \<Longrightarrow> walk (mem s') pt p = walk (mem s) pt p"
  shows "pt_wf s' pt fs"
proof (rule pt_wfI)
  show "frames s' fs" by (rule fs)
next
  fix f assume "f \<in> set fs"
  then show "f < 0x1000000000" using fs pt_wfD(2) [OF wf] by blast
next
  fix p a assume "is_path p" "length p \<le> 3" "walk (mem s') pt p = Some a"
  then show "page_aligned a \<and> a \<notin> set fs" using eq pt_wfD(3,4) [OF wf] fs(1) by fastforce
next
  fix p q a
  assume "is_path p" "length p \<le> 3" "is_path q" "length q \<le> 3"
    and "walk (mem s') pt p = Some a" "walk (mem s') pt q = Some a"
  then show "p = q" using eq pt_wfD(5) [OF wf, of p q a] by simp
qed

lemma is_path_append: "is_path (p @ q) \<longleftrightarrow> is_path p \<and> is_path q"
  by (auto simp: is_path_def)

lemma is_path_Cons: "is_path (i # q) \<longleftrightarrow> i < 512 \<and> is_path q"
  by (auto simp: is_path_def)

lemma is_path_Nil [simp]: "is_path []"
  by (simp add: is_path_def)

lemma va_path [simp]: "is_path (va_path va)" "length (va_path va) = 4"
  by (simp_all add: va_path_def is_path_def LVL_ADDR_less)

text \<open>Clearing a free frame changes no walk.\<close>

lemma walk_zero_free:
  assumes wf: "pt_wf s pt (f # fs)" and p: "is_path p" "length p \<le> 4"
  shows "walk (zero_page (mem s) f) pt p = walk (mem s) pt p"
proof (rule walk_cong, rule entry_cong)
  fix r i q a
  assume p_eq: "p = r @ i # q" and r: "walk (mem s) pt r = Some a"
  with p have path: "is_path r" "length r \<le> 3" "i < 512"
    by (simp_all add: is_path_append is_path_Cons)
  have "page_aligned a" "a \<noteq> f" "page_aligned f"
    using pt_wfD(3,4) [OF wf path(1,2) r] ka.avail_wf [OF pt_wfD(1) [OF wf]] by auto
  then show "load64 (zero_page (mem s) f) (slot a i) = load64 (mem s) (slot a i)"
    using path(3) pages_disjoint by (intro load_slot_other_page) auto
qed

text \<open>Writing one entry of one table changes only the walks through that entry.\<close>

lemma walk_store_entry:
  assumes wf: "pt_wf s pt fs"
    and t: "walk (mem s) pt r0 = Some t" "is_path r0" "length r0 \<le> 3" and j: "j < 512"
    and p: "is_path p" "length p \<le> 4" "\<And>q. p \<noteq> r0 @ j # q"
  shows "walk (store64 (mem s) (slot t j) e) pt p = walk (mem s) pt p"
proof (rule walk_cong, rule entry_cong)
  fix r i q a
  assume p_eq: "p = r @ i # q" and r: "walk (mem s) pt r = Some a"
  with p have path: "is_path r" "length r \<le> 3" "i < 512"
    by (simp_all add: is_path_append is_path_Cons)
  show "load64 (store64 (mem s) (slot t j) e) (slot a i) = load64 (mem s) (slot a i)"
  proof (cases "a = t")
    case True
    then have "r = r0" using pt_wfD(5) [OF wf path(1,2) t(2,3)] r t(1) by simp
    with p(3) p_eq have "i \<noteq> j" by auto
    with True show ?thesis using j path(3) by (simp add: load_slot_store_slot)
  next
    case False
    have "page_aligned a" "page_aligned t"
      using pt_wfD(3) [OF wf] path r t by blast+
    then have "\<And>x. in_page a x \<Longrightarrow> \<not> in_page t x" using False pages_disjoint by blast
    then show ?thesis using j path(3) unfolding slot_def [of t]
      by (intro load_slot_other_page) (auto intro!: store64_other_page slot_offset_le)
  qed
qed

lemma frames_store_table:
  assumes "frames s fs" "page_aligned t" "t \<notin> set fs" "j < 512"
  shows "frames (s\<lparr>mem := store64 (mem s) (slot t j) e\<rparr>) fs"
proof -
  have "free_list (store64 (mem s) (slot t j) e) h fs = free_list (mem s) h fs" for h
    using assms unfolding slot_def
    by (intro free_list_other_frame [of _ t])
      (auto simp: frames_def intro!: store64_other_page slot_offset_le)
  with assms(1) show ?thesis by (simp add: frames_def)
qed

lemma entry_store:
  assumes "bit e 10"
  shows "entry (store64 m (slot t j) e) t j = Some (GET_PHYSICAL_ADDR e)"
  using assms by (simp add: entry_def)

lemma walk_store_here:
  assumes "pt_wf s pt fs" "walk (mem s) pt r0 = Some t" "is_path r0" "length r0 \<le> 3" "j < 512"
    and "bit e 10"
  shows "walk (store64 (mem s) (slot t j) e) pt (r0 @ [j]) = Some (GET_PHYSICAL_ADDR e)"
proof -
  have "walk (store64 (mem s) (slot t j) e) pt r0 = walk (mem s) pt r0"
    by (rule walk_store_entry [OF assms(1-5)]) (use assms in auto)
  then show ?thesis using assms by (simp add: walk_snoc entry_store)
qed

lemma pt_wf_store_leaf:
  assumes wf: "pt_wf s pt fs" and t: "walk (mem s) pt r0 = Some t" "is_path r0" "length r0 = 3"
    and j: "j < 512"
  shows "pt_wf (s\<lparr>mem := store64 (mem s) (slot t j) e\<rparr>) pt fs"
proof -
  have "walk (store64 (mem s) (slot t j) e) pt p = walk (mem s) pt p"
    if "is_path p" "length p \<le> 3" for p
    by (rule walk_store_entry [OF wf t(1,2) _ j]) (use that t in auto)
  moreover have "frames (s\<lparr>mem := store64 (mem s) (slot t j) e\<rparr>) fs"
    using pt_wfD [OF wf] t j by (intro frames_store_table) auto
  ultimately show ?thesis by (intro pt_wf_transfer [OF wf]) auto
qed

lemma pt_wf_zero_free:
  assumes wf: "pt_wf s pt (f # fs)"
  shows "pt_wf (s\<lparr>page_frame_linked_list := load64 (mem s) f, mem := zero_page (mem s) f\<rparr>) pt fs"
proof -
  have "walk (zero_page (mem s) f) pt p = walk (mem s) pt p"
    if "is_path p" "length p \<le> 3" for p
    using walk_zero_free [OF wf] that by simp
  with kalloc_some(2) [OF pt_wfD(1) [OF wf]] show ?thesis
    by (intro pt_wf_transfer [OF wf]) auto
qed

text \<open>
  Linking a fresh, zeroed frame \<open>f\<close> into an unset entry above the last level: the tables stay a
  tree, the new table is reached by exactly one path, and no complete walk changes.
\<close>

lemma walk_link_table:
  assumes wf: "pt_wf s pt fs" and f: "page_aligned f" "\<And>p. is_path p \<Longrightarrow> length p \<le> 3 \<Longrightarrow>
      walk (mem s) pt p \<noteq> Some f"
    and zero: "\<And>i. i < 512 \<Longrightarrow> load64 (mem s) (slot f i) = 0"
    and t: "walk (mem s) pt r0 = Some t" "is_path r0" "length r0 < 3" "j < 512"
      "entry (mem s) t j = None"
    and e: "bit e 10" "GET_PHYSICAL_ADDR e = f"
    and p: "is_path p" "length p \<le> 4"
  shows "walk (store64 (mem s) (slot t j) e) pt p =
    (if p = r0 @ [j] then Some f else walk (mem s) pt p)"
proof (cases "\<exists>q. p = r0 @ j # q")
  case True
  then obtain q where q: "p = r0 @ j # q" by blast
  have t_al: "page_aligned t" using pt_wfD(3) [OF wf _ _ t(1)] t by simp
  have "t \<noteq> f" using f(2) [of r0] t by auto
  have empty: "entry (store64 (mem s) (slot t j) e) f i = None" if "i < 512" for i
  proof -
    have "load64 (store64 (mem s) (slot t j) e) (slot f i) = load64 (mem s) (slot f i)"
      using that \<open>t \<noteq> f\<close> t_al f(1) t(4) pages_disjoint unfolding slot_def [of t]
      by (intro load_slot_other_page) (auto intro!: store64_other_page slot_offset_le)
    then show ?thesis using zero that by (simp add: entry_def)
  qed
  have here: "walk (store64 (mem s) (slot t j) e) pt (r0 @ [j]) = Some f"
    using walk_store_here [OF wf t(1,2) _ t(4) e(1)] t e by simp
  show ?thesis
  proof (cases q)
    case Nil
    with q here show ?thesis by simp
  next
    case (Cons i q')
    with q p(1) have "i < 512" by (simp add: is_path_append is_path_Cons)
    have "walk (store64 (mem s) (slot t j) e) pt p = None"
      using walk_append [of _ pt "r0 @ [j]" "i # q'"] here empty [OF \<open>i < 512\<close>] q Cons by simp
    moreover have "walk (mem s) pt p = None"
      using walk_append [of "mem s" pt r0 "j # i # q'"] t q Cons by simp
    ultimately show ?thesis using q Cons by simp
  qed
next
  case False
  then have "walk (store64 (mem s) (slot t j) e) pt p = walk (mem s) pt p"
    by (intro walk_store_entry [OF wf t(1,2) _ t(4) p]) (use t in auto)
  with False show ?thesis by auto
qed

lemma pt_wf_link_table:
  assumes wf: "pt_wf s pt fs" and f: "page_aligned f" "f \<notin> set fs"
      "\<And>p. is_path p \<Longrightarrow> length p \<le> 3 \<Longrightarrow> walk (mem s) pt p \<noteq> Some f"
    and zero: "\<And>i. i < 512 \<Longrightarrow> load64 (mem s) (slot f i) = 0"
    and t: "walk (mem s) pt r0 = Some t" "is_path r0" "length r0 < 3" "j < 512"
      "entry (mem s) t j = None"
    and e: "bit e 10" "GET_PHYSICAL_ADDR e = f"
  shows "pt_wf (s\<lparr>mem := store64 (mem s) (slot t j) e\<rparr>) pt fs"
proof (rule pt_wfI)
  note walk = walk_link_table [OF wf f(1,3) zero t e]
  show "frames (s\<lparr>mem := store64 (mem s) (slot t j) e\<rparr>) fs"
    using pt_wfD [OF wf] t by (intro frames_store_table) auto
  show "g < 0x1000000000" if "g \<in> set fs" for g
    using pt_wfD(2) [OF wf that] .
  show "page_aligned a \<and> a \<notin> set fs"
    if "is_path p" "length p \<le> 3"
      "walk (mem (s\<lparr>mem := store64 (mem s) (slot t j) e\<rparr>)) pt p = Some a" for p a
    using that f pt_wfD(3,4) [OF wf that(1,2)] by (auto simp: walk split: if_splits)
  show "p = q"
    if "is_path p" "length p \<le> 3" "is_path q" "length q \<le> 3"
      and "walk (mem (s\<lparr>mem := store64 (mem s) (slot t j) e\<rparr>)) pt p = Some a"
      and "walk (mem (s\<lparr>mem := store64 (mem s) (slot t j) e\<rparr>)) pt q = Some a" for p q a
    using that f(3) pt_wfD(5) [OF wf that(1-4)] by (auto simp: walk split: if_splits)
qed

section \<open>One level of get\_physical\_page\<close>

lemma va_path_nth: "i < 4 \<Longrightarrow> va_path va ! i = LVL_ADDR va i"
  by (auto simp: va_path_def nth_Cons' numeral_eq_Suc less_Suc_eq)

lemma take_va_path: "i < 4 \<Longrightarrow> take (Suc i) (va_path va) = take i (va_path va) @ [LVL_ADDR va i]"
  by (simp add: take_Suc_conv_app_nth va_path_nth)

lemma is_path_take [simp]: "is_path (take i (va_path va))"
  using va_path(1) [of va] by (metis append_take_drop_id is_path_append)

lemma GET_PAGE_SET_entry: "GET_PAGE_SET (load64 m (slot t i)) = 0 \<longleftrightarrow> entry m t i = None"
  by (simp add: GET_PAGE_SET_bit entry_def Let_def)

lemma step_descend:
  assumes "entry (mem s) t (LVL_ADDR va i) = Some t'"
  shows "get_physical_page_step i t va pa kind s = (Inr t', s)"
  using assms GET_PAGE_SET_entry [of "mem s" t "LVL_ADDR va i"]
  by (auto simp: get_physical_page_step_def entry_def Let_def split: if_splits)

lemma step_no_frame:
  assumes "entry (mem s) t (LVL_ADDR va i) = None" "frames s []" "\<not> (i = 3 \<and> pa \<noteq> 0)"
  shows "get_physical_page_step i t va pa kind s = (Inl 0, s)"
  using assms ka.alloc_empty [OF assms(2)]
  by (auto simp: get_physical_page_step_def GET_PAGE_SET_entry Let_def)

definition linked :: "'a kmem_scheme \<Rightarrow> u64 \<Rightarrow> u64 \<Rightarrow> u64 \<Rightarrow> u64 \<Rightarrow> 'a kmem_scheme" where
  "linked s f t j e = s\<lparr>page_frame_linked_list := load64 (mem s) f,
     mem := store64 (zero_page (mem s) f) (slot t j) e\<rparr>"

lemma new_entry_props:
  assumes "i \<le> 3" "kind \<le> 2"
  obtains e where "new_entry i kind f = Some e" "bit e 10" "GET_PHYSICAL_ADDR e = take_bit 36 f"
proof -
  have "kind = 0 \<or> kind = 1 \<or> kind = 2" using assms(2) by unat_arith
  moreover have "i = 0 \<or> i = 1 \<or> i = 2 \<or> i = 3" using assms(1) by arith
  ultimately show thesis using that by (auto simp: new_entry_def)
qed

lemma given_entry_props:
  assumes "kind \<le> 2"
  obtains e where "given_entry kind pa = Some e" "bit e 10" "GET_PHYSICAL_ADDR e = take_bit 36 pa"
proof -
  have "kind = 0 \<or> kind = 1 \<or> kind = 2" using assms by unat_arith
  then show thesis using that by (auto simp: given_entry_def)
qed

lemma step_new_frame:
  assumes "entry (mem s) t (LVL_ADDR va i) = None" "frames s (f # fs)" "\<not> (i = 3 \<and> pa \<noteq> 0)"
    and "new_entry i kind f = Some e"
  shows "get_physical_page_step i t va pa kind s =
    (Inr (GET_PHYSICAL_ADDR e), linked s f t (LVL_ADDR va i) e)"
  using assms kalloc_some(1) [OF assms(2)]
  by (auto simp: get_physical_page_step_def GET_PAGE_SET_entry linked_def Let_def)

text \<open>What taking the frame \<open>f\<close> off the free list leaves: \<open>f\<close> is empty and reached by no path.\<close>

definition taken :: "'a kmem_scheme \<Rightarrow> u64 \<Rightarrow> 'a kmem_scheme" where
  "taken s f = s\<lparr>page_frame_linked_list := load64 (mem s) f, mem := zero_page (mem s) f\<rparr>"

lemma linked_taken: "linked s f t j e = (taken s f)\<lparr>mem := store64 (mem (taken s f)) (slot t j) e\<rparr>"
  by (simp add: linked_def taken_def)

lemma taken_frame:
  assumes wf: "pt_wf s pt (f # fs)"
  shows "pt_wf (taken s f) pt fs"
    and "\<And>p. is_path p \<Longrightarrow> length p \<le> 4 \<Longrightarrow> walk (mem (taken s f)) pt p = walk (mem s) pt p"
    and "\<And>p. is_path p \<Longrightarrow> length p \<le> 3 \<Longrightarrow> walk (mem (taken s f)) pt p \<noteq> Some f"
    and "\<And>i. i < 512 \<Longrightarrow> load64 (mem (taken s f)) (slot f i) = 0"
proof -
  show "pt_wf (taken s f) pt fs" unfolding taken_def by (rule pt_wf_zero_free [OF wf])
  show same: "walk (mem (taken s f)) pt p = walk (mem s) pt p" if "is_path p" "length p \<le> 4" for p
    using walk_zero_free [OF wf that] by (simp add: taken_def)
  show "walk (mem (taken s f)) pt p \<noteq> Some f" if "is_path p" "length p \<le> 3" for p
    using pt_wfD(4) [OF wf that] same [OF that(1)] that by auto
qed (simp add: taken_def load_slot_zero_page)

lemma link_fresh_frame:
  assumes wf: "pt_wf s pt (f # fs)"
    and t: "walk (mem s) pt r0 = Some t" "is_path r0" "length r0 \<le> 3" "j < 512"
      "entry (mem s) t j = None"
    and e: "bit e 10" "GET_PHYSICAL_ADDR e = take_bit 36 f"
  shows "pt_wf (linked s f t j e) pt fs"
    and "is_path p \<Longrightarrow> length p = 4 \<Longrightarrow>
      walk (mem (linked s f t j e)) pt p = (if p = r0 @ [j] then Some f else walk (mem s) pt p)"
    and "walk (mem (linked s f t j e)) pt (r0 @ [j]) = Some f"
proof -
  note tk = taken_frame [OF wf]
  have f: "page_aligned f" "f \<notin> set fs" "GET_PHYSICAL_ADDR e = f"
    using ka.avail_wf [OF pt_wfD(1) [OF wf]] e(2) pt_wfD(2) [OF wf, of f] by (simp_all add: take_bit_36_eq)
  have t1: "walk (mem (taken s f)) pt r0 = Some t" using tk(2) t by simp
  have "walk (mem (taken s f)) pt (r0 @ [j]) = None"
    using tk(2) [of "r0 @ [j]"] t by (simp add: walk_snoc is_path_append is_path_Cons)
  then have ent: "entry (mem (taken s f)) t j = None" using t1 by (simp add: walk_snoc)
  show here: "walk (mem (linked s f t j e)) pt (r0 @ [j]) = Some f"
    using walk_store_here [OF tk(1) t1 t(2-4) e(1)] f(3) by (simp add: linked_taken)
  show "pt_wf (linked s f t j e) pt fs"
    unfolding linked_taken
  proof (cases "length r0 = 3")
    case True
    then show "pt_wf ((taken s f)\<lparr>mem := store64 (mem (taken s f)) (slot t j) e\<rparr>) pt fs"
      by (intro pt_wf_store_leaf [OF tk(1) t1 t(2) _ t(4)])
  next
    case False
    then show "pt_wf ((taken s f)\<lparr>mem := store64 (mem (taken s f)) (slot t j) e\<rparr>) pt fs"
      using t(3) by (intro pt_wf_link_table [OF tk(1) f(1,2) tk(3,4) t1 t(2) _ t(4) ent e(1) f(3)]) simp_all
  qed
  show "walk (mem (linked s f t j e)) pt p = (if p = r0 @ [j] then Some f else walk (mem s) pt p)"
    if p: "is_path p" "length p = 4"
  proof (cases "length r0 = 3 \<and> p \<noteq> r0 @ [j]")
    case True
    then have "walk (store64 (mem (taken s f)) (slot t j) e) pt p = walk (mem (taken s f)) pt p"
      by (intro walk_store_entry [OF tk(1) t1 t(2-4)]) (use p in auto)
    then show ?thesis using True p tk(2) by (simp add: linked_taken)
  next
    case False
    then show ?thesis
      using here t(3) p tk(2) walk_link_table [OF tk(1) f(1) tk(3,4) t1 t(2) _ t(4) ent e(1) f(3), of p]
      by (cases "length r0 = 3") (auto simp: linked_taken)
  qed
qed

lemma step_given:
  assumes wf: "pt_wf s pt fs" and t: "walk (mem s) pt (take 3 (va_path va)) = Some t"
    and none: "entry (mem s) t (LVL_ADDR va 3) = None"
    and pa: "pa \<noteq> 0" "given_entry kind pa = Some e" "bit e 10" "GET_PHYSICAL_ADDR e = pa"
  defines "s' \<equiv> s\<lparr>mem := store64 (mem s) (slot t (LVL_ADDR va 3)) e\<rparr>"
  shows "get_physical_page_step 3 t va pa kind s = (Inl pa, s')"
    and "pt_wf s' pt fs"
    and "is_path p \<Longrightarrow> length p = 4 \<Longrightarrow>
      walk (mem s') pt p = (if p = va_path va then Some pa else walk (mem s) pt p)"
proof -
  have P: "va_path va = take 3 (va_path va) @ [LVL_ADDR va 3]"
    using take_va_path [of 3 va] by simp
  show "get_physical_page_step 3 t va pa kind s = (Inl pa, s')"
    using none pa by (simp add: get_physical_page_step_def GET_PAGE_SET_entry s'_def Let_def)
  show "pt_wf s' pt fs" unfolding s'_def
    by (rule pt_wf_store_leaf [OF wf t]) (simp_all add: LVL_ADDR_less)
  have here: "walk (mem s') pt (va_path va) = Some pa"
    unfolding s'_def
    by (subst P) (use walk_store_here [OF wf t _ _ LVL_ADDR_less pa(3)] pa in simp)
  show "walk (mem s') pt p = (if p = va_path va then Some pa else walk (mem s) pt p)"
    if p: "is_path p" "length p = 4"
  proof (cases "p = va_path va")
    case False
    have "walk (store64 (mem s) (slot t (LVL_ADDR va 3)) e) pt p = walk (mem s) pt p"
      by (rule walk_store_entry [OF wf t _ _ LVL_ADDR_less]) (use p P False in auto)
    then show ?thesis using False by (simp add: s'_def)
  qed (simp add: here)
qed

lemma va_path_split: "va_path va = take 3 (va_path va) @ [LVL_ADDR va 3]"
  using take_va_path [of 3 va] by simp

lemma translate_last:
  assumes "walk m pt (take 3 (va_path va)) = Some t"
  shows "translate m pt va = entry m t (LVL_ADDR va 3)"
  unfolding translate_def by (subst va_path_split) (simp add: walk_snoc assms)

section \<open>The whole walk\<close>

text \<open>
  What a call for \<open>va\<close> with result \<open>r\<close> has done, \<open>n\<close> being the levels it could allocate:
  the tables are still well formed over the remaining free frames, every other page
  translates as before, and a non-null result is the translation of \<open>va\<close>. A null result
  means that the free list ran out (or that \<open>va\<close> was already mapped to address 0).
\<close>

definition walked :: "u64 \<Rightarrow> u64 \<Rightarrow> u64 \<Rightarrow> nat \<Rightarrow> 'a kmem_scheme \<Rightarrow> u64 list \<Rightarrow> u64 \<Rightarrow>
    'a kmem_scheme \<Rightarrow> bool" where
  "walked pt va pa n s fs r s' \<longleftrightarrow>
     (\<exists>used fs'. fs = used @ fs' \<and> length used \<le> n \<and> pt_wf s' pt fs' \<and>
        (\<forall>q. is_path q \<and> length q = 4 \<and> q \<noteq> va_path va \<longrightarrow> walk (mem s') pt q = walk (mem s) pt q) \<and>
        (r \<noteq> 0 \<longrightarrow> translate (mem s') pt va = Some r) \<and>
        (r = 0 \<longrightarrow> translate (mem s') pt va = translate (mem s) pt va \<and>
           (translate (mem s) pt va = Some 0 \<or> length fs < n)) \<and>
        (translate (mem s) pt va = None \<longrightarrow> r \<noteq> 0 \<longrightarrow> pa \<noteq> 0 \<longrightarrow> r = pa))"

lemma loop_from_3_fresh:
  assumes wf: "pt_wf s pt fs" and t: "walk (mem s) pt (take 3 (va_path va)) = Some t"
    and kind: "kind \<le> 2" and None: "entry (mem s) t (LVL_ADDR va 3) = None"
    and res: "get_physical_page_loop 3 t va 0 kind s = (r, s')"
  shows "walked pt va 0 1 s fs r s'"
proof (cases fs)
  case Nil
  have "r = 0" "s' = s"
    using res step_no_frame [OF None, of 0 kind] pt_wfD(1) [OF wf] Nil
    by (simp_all add: get_physical_page_loop.simps)
  then show ?thesis using wf Nil by (auto simp: walked_def)
next
  case (Cons f fs')
  obtain e where e: "new_entry 3 kind f = Some e" "bit e 10" "GET_PHYSICAL_ADDR e = take_bit 36 f"
    using new_entry_props [OF _ kind, of 3 f] by auto
  have f: "GET_PHYSICAL_ADDR e = f" "f \<noteq> 0"
    using e(3) pt_wfD(2) [OF wf, of f] ka.avail_wf [OF pt_wfD(1) [OF wf]] Cons
    by (auto simp: take_bit_36_eq)
  note ln = link_fresh_frame [OF wf [unfolded Cons] t _ _ LVL_ADDR_less None e(2,3)]
  have rs: "r = f" "s' = linked s f t (LVL_ADDR va 3) e"
    using res step_new_frame [OF None, of f fs' 0 kind e] pt_wfD(1) [OF wf] Cons e f
    by (auto simp: get_physical_page_loop.simps)
  show ?thesis unfolding walked_def translate_def
    using ln rs f va_path_split [of va] Cons by (intro exI [of _ "[f]"] exI [of _ fs']) auto
qed

lemma loop_from_3:
  assumes wf: "pt_wf s pt fs" and t: "walk (mem s) pt (take 3 (va_path va)) = Some t"
    and kind: "kind \<le> 2" and pa: "pa < 0x1000000000"
    and res: "get_physical_page_loop 3 t va pa kind s = (r, s')"
  shows "walked pt va pa 1 s fs r s'"
proof (cases "entry (mem s) t (LVL_ADDR va 3)")
  case (Some t')
  then have "translate (mem s) pt va = Some t'" using t by (simp add: translate_last)
  moreover have "r = t'" "s' = s"
    using res step_descend [OF Some] by (simp_all add: get_physical_page_loop.simps)
  ultimately show ?thesis unfolding walked_def
    using wf by (intro exI [of _ "[]"] exI [of _ fs]) auto
next
  case None
  show ?thesis
  proof (cases "pa = 0")
    case False
    obtain e where e: "given_entry kind pa = Some e" "bit e 10" "GET_PHYSICAL_ADDR e = pa"
      using given_entry_props [OF kind, of pa] pa by (metis take_bit_36_eq)
    note st = step_given [OF wf t None False e]
    have rs: "r = pa" "s' = s\<lparr>mem := store64 (mem s) (slot t (LVL_ADDR va 3)) e\<rparr>"
      using res st(1) by (simp_all add: get_physical_page_loop.simps)
    show ?thesis unfolding walked_def translate_def
      using st(2,3) rs False by (intro exI [of _ "[]"] exI [of _ fs]) auto
  next
    case True
    with res show ?thesis using loop_from_3_fresh [OF wf t kind None] by simp
  qed
qed

lemma walked_trans:
  assumes "walked pt va pa n s1 fs1 r s'" and "fs = used @ fs1" "length used \<le> 1"
    and "\<And>q. is_path q \<Longrightarrow> length q = 4 \<Longrightarrow> walk (mem s1) pt q = walk (mem s) pt q"
  shows "walked pt va pa (Suc n) s fs r s'"
proof -
  have tr: "translate (mem s1) pt va = translate (mem s) pt va"
    using assms(4) [of "va_path va"] by (simp add: translate_def)
  from assms(1) obtain used1 fs' where w: "fs1 = used1 @ fs'" "length used1 \<le> n" "pt_wf s' pt fs'"
      "\<forall>q. is_path q \<and> length q = 4 \<and> q \<noteq> va_path va \<longrightarrow> walk (mem s') pt q = walk (mem s1) pt q"
      "r \<noteq> 0 \<longrightarrow> translate (mem s') pt va = Some r"
      "r = 0 \<longrightarrow> translate (mem s') pt va = translate (mem s1) pt va \<and>
         (translate (mem s1) pt va = Some 0 \<or> length fs1 < n)"
      "translate (mem s1) pt va = None \<longrightarrow> r \<noteq> 0 \<longrightarrow> pa \<noteq> 0 \<longrightarrow> r = pa"
    unfolding walked_def by (elim exE conjE) (rule that)
  show ?thesis unfolding walked_def
  proof (intro exI conjI)
    show "fs = (used @ used1) @ fs'" "length (used @ used1) \<le> Suc n"
      using assms(2,3) w(1,2) by simp_all
    show "\<forall>q. is_path q \<and> length q = 4 \<and> q \<noteq> va_path va \<longrightarrow> walk (mem s') pt q = walk (mem s) pt q"
      using w(4) assms(4) by simp
    have "length fs1 < n \<Longrightarrow> length fs < Suc n" using assms(2,3) by simp
    then show "r = 0 \<longrightarrow> translate (mem s') pt va = translate (mem s) pt va \<and>
        (translate (mem s) pt va = Some 0 \<or> length fs < Suc n)"
      using w(6) unfolding tr by blast
  qed (use w(3,5,7) tr in simp_all)
qed

lemma loop_step_up:
  assumes i: "i < 3" and wf: "pt_wf s pt fs"
    and t: "walk (mem s) pt (take i (va_path va)) = Some t" and kind: "kind \<le> 2"
    and IH: "\<And>s1 fs1 t1. pt_wf s1 pt fs1 \<Longrightarrow> walk (mem s1) pt (take (Suc i) (va_path va)) = Some t1 \<Longrightarrow>
        get_physical_page_loop (Suc i) t1 va pa kind s1 = (r, s') \<Longrightarrow> walked pt va pa n s1 fs1 r s'"
    and res: "get_physical_page_loop i t va pa kind s = (r, s')"
  shows "walked pt va pa (Suc n) s fs r s'"
proof (cases "entry (mem s) t (LVL_ADDR va i)")
  case (Some t')
  then have "walk (mem s) pt (take (Suc i) (va_path va)) = Some t'"
    using take_va_path [of i va] t i by (simp add: walk_snoc)
  moreover have "get_physical_page_loop (Suc i) t' va pa kind s = (r, s')"
    using res step_descend [OF Some] i by (simp add: get_physical_page_loop.simps [of i])
  ultimately show ?thesis using walked_trans [OF IH [OF wf], of t' fs "[]"] by simp
next
  case None
  show ?thesis
  proof (cases fs)
    case Nil
    have "r = 0" "s' = s"
      using res step_no_frame [OF None, of pa kind] pt_wfD(1) [OF wf] Nil i
      by (simp_all add: get_physical_page_loop.simps [of i])
    then show ?thesis using wf Nil by (auto simp: walked_def)
  next
    case (Cons f fs1)
    obtain e where e: "new_entry i kind f = Some e" "bit e 10" "GET_PHYSICAL_ADDR e = take_bit 36 f"
      using new_entry_props [OF _ kind, of i f] i by auto
    have f: "GET_PHYSICAL_ADDR e = f"
      using e(3) pt_wfD(2) [OF wf, of f] Cons by (auto simp: take_bit_36_eq)
    note ln = link_fresh_frame [OF wf [unfolded Cons] t _ _ LVL_ADDR_less None e(2,3)]
    define s1 where "s1 = linked s f t (LVL_ADDR va i) e"
    have "get_physical_page_loop (Suc i) f va pa kind s1 = (r, s')"
      using res step_new_frame [OF None, of f fs1 pa kind e] pt_wfD(1) [OF wf] Cons e f i
      by (simp add: get_physical_page_loop.simps [of i] s1_def)
    moreover have "pt_wf s1 pt fs1" "walk (mem s1) pt (take (Suc i) (va_path va)) = Some f"
      using ln(1,3) i take_va_path [of i va] by (simp_all add: s1_def)
    ultimately have "walked pt va pa n s1 fs1 r s'" by (intro IH)
    moreover have "walk (mem s1) pt q = walk (mem s) pt q" if "is_path q" "length q = 4" for q
      using ln(2) [OF _ _ that] that i by (auto simp: s1_def)
    ultimately show ?thesis using Cons by (intro walked_trans [of _ _ _ _ s1 fs1 _ _ _ "[f]"]) auto
  qed
qed

lemma get_physical_page_walked:
  assumes "pt_wf s pt fs" "kind \<le> 2" "pa < 0x1000000000"
    and "get_physical_page pt va pa kind s = (r, s')"
  shows "walked pt va pa 4 s fs r s'"
proof -
  have l3: "walked pt va pa 1 s fs r s'"
    if "pt_wf s pt fs" "walk (mem s) pt (take 3 (va_path va)) = Some t"
      "get_physical_page_loop 3 t va pa kind s = (r, s')" for s :: "'a kmem_scheme" and fs t
    using loop_from_3 that assms(2,3) by blast
  have l2: "walked pt va pa 2 s fs r s'"
    if "pt_wf s pt fs" "walk (mem s) pt (take 2 (va_path va)) = Some t"
      "get_physical_page_loop 2 t va pa kind s = (r, s')" for s :: "'a kmem_scheme" and fs t
    using loop_step_up [of 2 s pt fs va t kind pa r s' 1] l3 that assms(2) by (simp add: numeral_eq_Suc)
  have l1: "walked pt va pa 3 s fs r s'"
    if "pt_wf s pt fs" "walk (mem s) pt (take 1 (va_path va)) = Some t"
      "get_physical_page_loop 1 t va pa kind s = (r, s')" for s :: "'a kmem_scheme" and fs t
    using loop_step_up [of 1 s pt fs va t kind pa r s' 2] l2 that assms(2) by (simp add: numeral_eq_Suc)
  show ?thesis
    using loop_step_up [of 0 s pt fs va pt kind pa r s' 3] l1 assms
    by (simp add: numeral_eq_Suc get_physical_page_def)
qed

lemma get_physical_page_mapped:
  assumes "translate (mem s) pt va = Some a"
  shows "get_physical_page pt va pa kind s = (a, s)"
  using assms
  by (auto simp: translate_def va_path_def get_physical_page_def step_descend
      get_physical_page_loop.simps numeral_eq_Suc split: option.splits)

lemma va_path_page:
  assumes "va_path va = va_path va'"
  shows "take_bit 36 (drop_bit 12 va) = take_bit 36 (drop_bit 12 va')"
proof (rule bit_word_eqI)
  fix n assume "n < LENGTH(64)"
  have eq: "bit va (39 - l * 9 + k) = bit va' (39 - l * 9 + k)" if "l < 4" "k < 9" for l k
  proof -
    have "LVL_ADDR va l = LVL_ADDR va' l" using assms that(1) va_path_nth by metis
    then have "bit (LVL_ADDR va l) k = bit (LVL_ADDR va' l) k" by simp
    then show ?thesis using that(2) by (simp add: bit_LVL_ADDR)
  qed
  have "bit va (12 + n) = bit va' (12 + n)" if "n < 36"
  proof -
    have "12 + n = 39 - (3 - n div 9) * 9 + n mod 9" using that by presburger
    then show ?thesis using eq [of "3 - n div 9" "n mod 9"] by simp
  qed
  then show "bit (take_bit 36 (drop_bit 12 va)) n = bit (take_bit 36 (drop_bit 12 va')) n"
    by (auto simp: bit_simps)
qed

section \<open>A booted memory\<close>

text \<open>
  A concrete state for the witnesses: zeroed memory, the frames from \<open>0x90000\<close> on in the free
  list, and the first of them, the frame at \<open>0x90000\<close>, taken as an empty root table.
\<close>

definition boot_kmem :: kmem where
  "boot_kmem = kalloc_init 0x90000 \<lparr>mem = (\<lambda>_. 0), page_frame_linked_list = 0\<rparr>"

definition boot_table :: kmem where
  "boot_table = snd (kalloc boot_kmem)"

lemma boot_frames: "frames boot_kmem (0x90000 # pages_from 0x91000 257904)"
proof -
  have "frame_count 0x90000 = 257905" by (simp add: frame_count_def kalloc_end_eq)
  moreover have "pages_from 0x90000 257905 = 0x90000 # pages_from 0x91000 257904"
    using pages_from.simps(2) [of "0x90000" 257904] by simp
  ultimately show ?thesis
    using kalloc_init_frames [of "0x90000" "\<lparr>mem = (\<lambda>_. 0), page_frame_linked_list = 0\<rparr>"]
    by (simp add: boot_kmem_def page_aligned_def kalloc_end_eq PageSize_def)
qed

lemma boot_frames_low: "f \<in> set (0x90000 # pages_from 0x91000 257904) \<Longrightarrow> f < 0x1000000000"
  using pages_from_bounds [of "0x91000" 257904 f] by (auto simp: word_less_nat_alt)

lemma fresh_table:
  assumes "frames s (r # fs)" "\<And>f. f \<in> set (r # fs) \<Longrightarrow> f < 0x1000000000"
  shows "\<exists>s1. kalloc s = (Some r, s1) \<and> pt_wf s1 r fs \<and> (\<forall>va. translate (mem s1) r va = None)"
proof -
  define s1 where "s1 = s\<lparr>page_frame_linked_list := load64 (mem s) r, mem := zero_page (mem s) r\<rparr>"
  note ks = kalloc_some [OF assms(1), folded s1_def]
  have r: "page_aligned r" "r \<notin> set fs" using ka.avail_wf [OF assms(1)] by simp_all
  have walk: "walk (mem s1) r p = (if p = [] then Some r else None)" if "is_path p" for p
    using that by (cases p) (simp_all add: s1_def entry_def load_slot_zero_page is_path_Cons)
  have "pt_wf s1 r fs"
    by (rule pt_wfI) (use ks(2) r assms(2) in \<open>auto simp: walk split: if_splits\<close>)
  moreover have "translate (mem s1) r va = None" for va
    by (simp add: translate_def walk) (simp add: va_path_def)
  ultimately show ?thesis using ks(1) by blast
qed

lemma boot_table_wf:
  "pt_wf boot_table 0x90000 (pages_from 0x91000 257904)"
  "translate (mem boot_table) 0x90000 va = None"
  using fresh_table [OF boot_frames boot_frames_low] by (auto simp: boot_table_def)

section \<open>Properties\<close>

text \<open>
  C1: correctness of the page-table walk. On well-formed tables, for a known kind and a
  physical address below \<open>2 ^ 36\<close>, \<open>get_physical_page\<close> keeps the tables well formed, takes at most
  four frames off the free list, leaves the translation of every other page alone, and a
  non-null result is what the page now translates to. When the page was unmapped and four
  frames are free it does not fail, and it maps the address it was given, if any.
\<close>

theorem get_physical_page_correct:
  assumes "pt_wf s pt fs" "kind \<le> 2" "pa < 0x1000000000"
    and "get_physical_page pt va pa kind s = (r, s')"
  shows "\<exists>used fs'. fs = used @ fs' \<and> length used \<le> 4 \<and> pt_wf s' pt fs' \<and>
    (\<forall>va'. va_path va' \<noteq> va_path va \<longrightarrow> translate (mem s') pt va' = translate (mem s) pt va') \<and>
    (r \<noteq> 0 \<longrightarrow> translate (mem s') pt va = Some r) \<and>
    (translate (mem s) pt va = None \<and> 4 \<le> length fs \<longrightarrow> r \<noteq> 0 \<and> (pa \<noteq> 0 \<longrightarrow> r = pa))"
proof -
  obtain used fs' where "fs = used @ fs'" "length used \<le> 4" "pt_wf s' pt fs'"
      "\<forall>q. is_path q \<and> length q = 4 \<and> q \<noteq> va_path va \<longrightarrow> walk (mem s') pt q = walk (mem s) pt q"
      "r \<noteq> 0 \<longrightarrow> translate (mem s') pt va = Some r"
      "r = 0 \<longrightarrow> translate (mem s') pt va = translate (mem s) pt va \<and>
         (translate (mem s) pt va = Some 0 \<or> length fs < 4)"
      "translate (mem s) pt va = None \<longrightarrow> r \<noteq> 0 \<longrightarrow> pa \<noteq> 0 \<longrightarrow> r = pa"
    using get_physical_page_walked [OF assms] unfolding walked_def by (elim exE conjE) (rule that)
  then show ?thesis
    by (intro exI [of _ used] exI [of _ fs']) (auto simp: translate_def)
qed

theorem get_physical_page_correct_witness:
  "\<exists>s'. get_physical_page 0x90000 0x400000 0x7000 2 boot_table = (0x7000, s') \<and>
     translate (mem s') 0x90000 0x400000 = Some 0x7000"
proof -
  obtain r s' where call: "get_physical_page 0x90000 0x400000 0x7000 2 boot_table = (r, s')"
    by (cases "get_physical_page 0x90000 0x400000 0x7000 2 boot_table")
  from get_physical_page_correct [OF boot_table_wf(1) _ _ call] have
    "(r \<noteq> 0 \<longrightarrow> translate (mem s') 0x90000 0x400000 = Some r) \<and> r \<noteq> 0 \<and> r = 0x7000"
    using boot_table_wf(2) by auto
  with call show ?thesis by auto
qed

text \<open>
  A page that is already mapped is only looked up: whatever address and kind the caller
  passes, \<open>get_physical_page\<close> returns the existing translation and changes nothing.
\<close>

theorem get_physical_page_lookup:
  assumes "translate (mem s) pt va = Some a"
  shows "get_physical_page pt va pa kind s = (a, s)"
  using assms by (rule get_physical_page_mapped)

theorem get_physical_page_lookup_witness:
  "\<exists>s'. get_physical_page 0x90000 0x400000 0x9000 7 s' = (0x7000, s' :: kmem)"
proof -
  obtain r s' where call: "get_physical_page 0x90000 0x400000 0x7000 2 boot_table = (r, s')"
    by (cases "get_physical_page 0x90000 0x400000 0x7000 2 boot_table")
  have "walked 0x90000 0x400000 0x7000 4 boot_table (pages_from 0x91000 257904) r s'"
    by (rule get_physical_page_walked [OF boot_table_wf(1) _ _ call]) simp_all
  then have "translate (mem s') 0x90000 0x400000 = Some 0x7000"
    using boot_table_wf(2) unfolding walked_def by auto
  from get_physical_page_lookup [OF this] show ?thesis by blast
qed

text \<open>
  Two virtual addresses use the same four table indices exactly when they agree on bits 12
  to 47, so translation works on whole 4096-byte pages of a 48-bit address space.
\<close>

lemma va_path_identifies_page:
  "va_path va = va_path va' \<longleftrightarrow> take_bit 36 (drop_bit 12 va) = take_bit 36 (drop_bit 12 va')"
proof
  assume eq: "take_bit 36 (drop_bit 12 va) = take_bit 36 (drop_bit 12 va')"
  have LVL: "LVL_ADDR v l = take_bit 9 (drop_bit (27 - l * 9) (take_bit 36 (drop_bit 12 v)))"
    if "l < 4" for l and v :: u64
  proof -
    define c where "c = 27 - l * 9"
    have c: "39 - l * 9 = 12 + c" "c \<le> 27" using that by (simp_all add: c_def)
    show ?thesis unfolding c_def [symmetric]
      by (rule bit_word_eqI) (use c in \<open>auto simp: bit_LVL_ADDR bit_take_bit_iff bit_drop_bit_eq ac_simps\<close>)
  qed
  show "va_path va = va_path va'" by (simp add: va_path_def LVL eq)
qed (rule va_path_page)

end
