(* ===== verification/Vmem_Region.thy ===== *)
theory Vmem_Region
  imports Vmem
begin

text \<open>
  Regions and whole tables of \<^verbatim>\<open>kernel/vmem.c\<close>: \<^verbatim>\<open>map_region\<close>, \<^verbatim>\<open>make_kpagetable\<close>, and what
  \<^verbatim>\<open>free_page\<close>, \<^verbatim>\<open>free_pagetable\<close>, \<^verbatim>\<open>clone_pagetable\<close> and the user copies really do.
\<close>

section \<open>Lemmas\<close>

lemma unat_page_number: "unat (take_bit 36 (drop_bit 12 (w :: u64))) = unat w div 4096 mod 68719476736"
  by (simp add: take_bit_eq_mod drop_bit_eq_div unat_mod unat_div)

lemma va_path_later_page:
  assumes "unat va + 4096 \<le> unat v" "unat v + 4096 \<le> unat va + 281474976710656"
  shows "va_path v \<noteq> va_path va"
proof
  define a b where "a = unat va div 4096" and "b = unat v div 4096"
  assume "va_path v = va_path va"
  then have "b mod 68719476736 = a mod 68719476736"
    unfolding a_def b_def using va_path_page unat_page_number by metis
  moreover have "a < b" "b - a < 68719476736"
    using assms unfolding a_def b_def by linarith+
  ultimately have "68719476736 dvd b - a" by (metis mod_eq_dvd_iff_nat less_imp_le_nat)
  with \<open>a < b\<close> \<open>b - a < 68719476736\<close> show False by (simp add: nat_dvd_not_less)
qed

lemma map_one_page:
  assumes "pt_wf s pt fs" "kind \<le> 2" "4 \<le> length fs" "pa \<noteq> 0" "pa < 0x1000000000" "translate (mem s) pt va = None"
  obtains s1 used fs1 where "map_page pt va pa kind s = (0, s1)" "fs = used @ fs1" "length used \<le> 4" "pt_wf s1 pt fs1"
    "\<And>q. is_path q \<Longrightarrow> length q = 4 \<Longrightarrow> q \<noteq> va_path va \<Longrightarrow> walk (mem s1) pt q = walk (mem s) pt q"
    "translate (mem s1) pt va = Some pa"
proof -
  obtain r s1 where call: "get_physical_page pt va pa kind s = (r, s1)"
    by (cases "get_physical_page pt va pa kind s")
  have "walked pt va pa 4 s fs r s1"
    by (rule get_physical_page_walked [OF assms(1,2,5) call])
  then obtain used fs1 where w: "fs = used @ fs1" "length used \<le> 4" "pt_wf s1 pt fs1"
      "\<And>q. is_path q \<Longrightarrow> length q = 4 \<Longrightarrow> q \<noteq> va_path va \<Longrightarrow> walk (mem s1) pt q = walk (mem s) pt q"
      and r: "r = pa" "translate (mem s1) pt va = Some pa"
    using assms(3,4,6) unfolding walked_def by (elim exE conjE) auto
  have "map_page pt va pa kind s = (0, s1)" using call r(1) assms(4) by (simp add: map_page_def)
  then show thesis using w r(2) by (intro that)
qed

lemma following_paths:
  assumes "unat va + 4096 * Suc n = unat (va_end :: u64)" "Suc n \<le> 68719476736" "v \<in> set (pages_from (va + 4096) n)"
  shows "va_path v \<noteq> va_path va"
proof -
  have uva: "unat (va + 4096) = unat va + 4096"
    using assms(1) unat64_less [of va_end] by (intro unat_add_page) simp
  then have "unat (va + 4096) \<le> unat v \<and> unat v + 4096 \<le> unat (va + 4096) + 4096 * n"
    using assms(1,3) unat64_less [of va_end] by (intro pages_from_bounds) auto
  then show ?thesis using uva assms(2) by (intro va_path_later_page) auto
qed

lemma map_region_loop_maps:
  assumes "pt_wf s pt fs" "kind \<le> 2" "4 * n \<le> length fs"
    and "unat va + 4096 * n = unat va_end" "n \<le> 68719476736"
    and "pa \<noteq> 0" "unat pa + 4096 * n \<le> 68719476736"
    and "\<And>v. v \<in> set (pages_from va n) \<Longrightarrow> translate (mem s) pt v = None"
  shows "\<exists>s' used fs'. map_region_loop pt va_start va_end va pa kind s = Some (None, s') \<and>
    fs = used @ fs' \<and> length used \<le> 4 * n \<and> pt_wf s' pt fs' \<and>
    list_all2 (\<lambda>v p. translate (mem s') pt v = Some p) (pages_from va n) (pages_from pa n) \<and>
    (\<forall>q. is_path q \<and> length q = 4 \<and> q \<notin> va_path ` set (pages_from va n) \<longrightarrow>
       walk (mem s') pt q = walk (mem s) pt q)"
  using assms
proof (induction n arbitrary: s fs va pa)
  case 0
  then have "\<not> va < va_end" by (simp add: word_less_nat_alt)
  then show ?case using 0
    by (intro exI [of _ s] exI [of _ "[]"] exI [of _ fs]) (simp add: map_region_loop.simps)
next
  case (Suc n)
  let ?va = "va + 4096" and ?pa = "pa + 4096"
  have lt: "va < va_end" using Suc.prems(4) by (simp add: word_less_nat_alt)
  have pa36: "pa < 0x1000000000" using Suc.prems(7) by (simp add: word_less_nat_alt)
  have "4 \<le> length fs" "translate (mem s) pt va = None" using Suc.prems(3,8) by simp_all
  from map_one_page [OF Suc.prems(1,2) this(1) Suc.prems(6) pa36 this(2)] obtain s1 used1 fs1 where
    w: "map_page pt va pa kind s = (0, s1)" "fs = used1 @ fs1" "length used1 \<le> 4" "pt_wf s1 pt fs1"
      "\<And>q. is_path q \<Longrightarrow> length q = 4 \<Longrightarrow> q \<noteq> va_path va \<Longrightarrow> walk (mem s1) pt q = walk (mem s) pt q"
      "translate (mem s1) pt va = Some pa" by blast
  note later = following_paths [OF Suc.prems(4,5)]
  have uva: "unat ?va = unat va + 4096"
    using Suc.prems(4) unat64_less [of va_end] by (intro unat_add_page) simp
  have upa: "unat ?pa = unat pa + 4096" using Suc.prems(7) by (intro unat_add_page) simp
  then have "?pa \<noteq> 0" by (metis add_is_0 unsigned_0 zero_neq_numeral)
  moreover have "\<And>v. v \<in> set (pages_from ?va n) \<Longrightarrow> translate (mem s1) pt v = None"
    using later w(5) Suc.prems(8) by (simp add: translate_def)
  ultimately obtain s' used2 fs' where IH: "map_region_loop pt va_start va_end ?va ?pa kind s1 = Some (None, s')"
      "fs1 = used2 @ fs'" "length used2 \<le> 4 * n" "pt_wf s' pt fs'"
      "list_all2 (\<lambda>v p. translate (mem s') pt v = Some p) (pages_from ?va n) (pages_from ?pa n)"
      "\<And>q. is_path q \<Longrightarrow> length q = 4 \<Longrightarrow> q \<notin> va_path ` set (pages_from ?va n) \<Longrightarrow>
         walk (mem s') pt q = walk (mem s1) pt q"
    using Suc.IH [of s1 fs1 ?va ?pa] w(2-4) Suc.prems(2-5,7) uva upa by fastforce
  have "va_path va \<notin> va_path ` set (pages_from ?va n)" using later by (metis imageE)
  then have "translate (mem s') pt va = Some pa" using IH(6) w(6) by (simp add: translate_def)
  moreover have "map_region_loop pt va_start va_end va pa kind s = Some (None, s')"
    using lt w(1) IH(1) by (subst map_region_loop.simps) (simp add: PageSize_def)
  ultimately show ?case
    using IH w by (intro exI [of _ s'] exI [of _ "used1 @ used2"] exI [of _ fs']) auto
qed

lemma map_region_maps:
  assumes "pt_wf s pt fs" "kind \<le> 2" "4 * n \<le> length fs"
    and "page_aligned va" "page_aligned pa" "unat sz = 4096 * n"
    and "unat va + unat sz < 18446744073709551616" "n \<le> 68719476736"
    and "pa \<noteq> 0" "unat pa + unat sz \<le> 68719476736"
    and "\<And>v. v \<in> set (pages_from va n) \<Longrightarrow> translate (mem s) pt v = None"
  shows "\<exists>s' used fs'. map_region pt va pa sz kind s = Some (None, s') \<and>
    fs = used @ fs' \<and> length used \<le> 4 * n \<and> pt_wf s' pt fs' \<and>
    list_all2 (\<lambda>v p. translate (mem s') pt v = Some p) (pages_from va n) (pages_from pa n) \<and>
    (\<forall>q. is_path q \<and> length q = 4 \<and> q \<notin> va_path ` set (pages_from va n) \<longrightarrow>
       walk (mem s') pt q = walk (mem s) pt q)"
proof -
  have e: "unat va + 4096 * n = unat (va + sz)" using assms(6,7) by (simp add: unat_word_ariths)
  have "page_aligned sz" using assms(6) by (simp add: page_aligned_dvd)
  then have "page_aligned (va + sz)" using assms(4) by (intro page_aligned_add)
  then have "map_region pt va pa sz kind s = map_region_loop pt va (va + sz) va pa kind s"
    using assms(4,5) by (simp add: map_region_def page_aligned_def PageSize_def)
  then show ?thesis
    using map_region_loop_maps [OF assms(1-3) e assms(8,9) _ assms(11), of va] assms(6,10) by simp
qed

lemma unat_kernel_va:
  assumes "unat k \<le> 1056964608" shows "unat (VKERN_START + k) = 18446462598732840960 + unat k"
  using assms by (simp add: VKERN_START_def unat_word_ariths)

lemma kernel_mmio_apart:
  fixes kstart kend :: u64
  assumes k: "unat kend = unat kstart + 4096 * n" "kend \<le> 0x3F000000"
    and "v \<in> set (pages_from MMIO_BASE 4096)" "w \<in> set (pages_from (VKERN_START + kstart) n)"
  shows "va_path v \<noteq> va_path w"
proof (rule va_path_later_page)
  have ke: "unat kend \<le> 1056964608" using k(2) by (simp add: word_le_nat_alt)
  then have uva: "unat (VKERN_START + kstart) = 18446462598732840960 + unat kstart"
    using k(1) by (intro unat_kernel_va) simp
  have "unat (VKERN_START + kstart) \<le> unat w \<and>
      unat w + 4096 \<le> unat (VKERN_START + kstart) + 4096 * n"
    by (rule pages_from_bounds) (use assms(4) uva k ke in auto)
  moreover have "unat MMIO_BASE \<le> unat v \<and> unat v + 4096 \<le> unat MMIO_BASE + 4096 * 4096"
    by (rule pages_from_bounds) (use assms(3) in \<open>auto simp: memory_map_defs\<close>)
  ultimately show "unat w + 4096 \<le> unat v" "unat v + 4096 \<le> unat w + 281474976710656"
    using uva k(1) ke by (auto simp: memory_map_defs)
qed

lemma kernel_region_maps:
  assumes pt: "pt_wf s pt fs" "\<And>va. translate (mem s) pt va = None" and enough: "4 * n \<le> length fs"
    and k: "page_aligned kstart" "kstart \<noteq> 0" "unat kend = unat kstart + 4096 * n" "kend \<le> 0x3F000000"
  obtains s' used fs' where "map_region pt (VKERN_START + kstart) kstart (kend - kstart) 0 s = Some (None, s')"
    "fs = used @ fs'" "length used \<le> 4 * n" "pt_wf s' pt fs'"
    "list_all2 (\<lambda>v p. translate (mem s') pt v = Some p) (pages_from (VKERN_START + kstart) n) (pages_from kstart n)"
    "\<And>v. va_path v \<notin> va_path ` set (pages_from (VKERN_START + kstart) n) \<Longrightarrow> translate (mem s') pt v = None"
proof -
  let ?va = "VKERN_START + kstart"
  have ke: "unat kend \<le> 1056964608" using k(4) by (simp add: word_le_nat_alt)
  then have uva: "unat ?va = 18446462598732840960 + unat kstart"
    using k(3) by (intro unat_kernel_va) simp
  have usz: "unat (kend - kstart) = 4096 * n" using k(3) by (simp add: unat_sub_if')
  have "page_aligned VKERN_START" by (simp add: page_aligned_def VKERN_START_def)
  then have al: "page_aligned ?va" using k(1) by (rule page_aligned_add)
  have n: "n \<le> 258048" using k(3) ke by linarith
  obtain s' used fs' where r: "map_region pt ?va kstart (kend - kstart) 0 s = Some (None, s')"
      "fs = used @ fs'" "length used \<le> 4 * n" "pt_wf s' pt fs'"
      "list_all2 (\<lambda>v p. translate (mem s') pt v = Some p) (pages_from ?va n) (pages_from kstart n)"
      "\<And>q. is_path q \<Longrightarrow> length q = 4 \<Longrightarrow> q \<notin> va_path ` set (pages_from ?va n) \<Longrightarrow>
         walk (mem s') pt q = walk (mem s) pt q"
    using map_region_maps [OF pt(1), of 0 n ?va kstart "kend - kstart"] enough al k usz uva n ke pt(2)
    by auto
  show thesis
    using r(1-5)
  proof (rule that)
    show "translate (mem s') pt v = None" if "va_path v \<notin> va_path ` set (pages_from ?va n)" for v
      using r(6) [of "va_path v"] pt(2) [of v] that by (simp add: translate_def)
  qed
qed

lemma device_region_maps:
  assumes pt: "pt_wf s pt fs" and enough: "4 * 4096 \<le> length fs"
    and unmapped: "\<And>v. v \<in> set (pages_from MMIO_BASE 4096) \<Longrightarrow> translate (mem s) pt v = None"
  obtains s' used fs' where "map_region pt MMIO_BASE 0x3F000000 0x1000000 1 s = Some (None, s')"
    "fs = used @ fs'" "length used \<le> 4 * 4096" "pt_wf s' pt fs'"
    "list_all2 (\<lambda>v p. translate (mem s') pt v = Some p) (pages_from MMIO_BASE 4096) (pages_from 0x3F000000 4096)"
    "\<And>v. va_path v \<notin> va_path ` set (pages_from MMIO_BASE 4096) \<Longrightarrow> translate (mem s') pt v = translate (mem s) pt v"
proof -
  obtain s' used fs' where r: "map_region pt MMIO_BASE 0x3F000000 0x1000000 1 s = Some (None, s')"
      "fs = used @ fs'" "length used \<le> 4 * 4096" "pt_wf s' pt fs'"
      "list_all2 (\<lambda>v p. translate (mem s') pt v = Some p) (pages_from MMIO_BASE 4096) (pages_from 0x3F000000 4096)"
      "\<And>q. is_path q \<Longrightarrow> length q = 4 \<Longrightarrow> q \<notin> va_path ` set (pages_from MMIO_BASE 4096) \<Longrightarrow>
         walk (mem s') pt q = walk (mem s) pt q"
    using map_region_maps [OF pt, of 1 4096 MMIO_BASE "0x3F000000" "0x1000000"] unmapped enough
    by (auto simp: memory_map_defs page_aligned_def)
  show thesis
    using r(1-5)
  proof (rule that)
    show "translate (mem s') pt v = translate (mem s) pt v" if "va_path v \<notin> va_path ` set (pages_from MMIO_BASE 4096)" for v
      using r(6) [of "va_path v"] that by (simp add: translate_def)
  qed
qed

lemma make_kpagetable_maps:
  assumes fs: "frames s (kpt # fs)" "\<And>f. f \<in> set (kpt # fs) \<Longrightarrow> f < 0x1000000000"
    and enough: "4 * n + 4 * 4096 \<le> length fs"
    and k: "page_aligned kstart" "kstart \<noteq> 0" "unat kend = unat kstart + 4096 * n" "kend \<le> 0x3F000000"
    and junk: "junk1 \<noteq> -1" "junk2 \<noteq> -1"
  shows "\<exists>s' used rest. make_kpagetable kstart kend junk1 junk2 s = Some (kpt, s') \<and>
    fs = used @ rest \<and> length used \<le> 4 * n + 4 * 4096 \<and> pt_wf s' kpt rest \<and>
    list_all2 (\<lambda>v p. translate (mem s') kpt v = Some p)
      (pages_from (VKERN_START + kstart) n) (pages_from kstart n) \<and>
    list_all2 (\<lambda>v p. translate (mem s') kpt v = Some p)
      (pages_from MMIO_BASE 4096) (pages_from 0x3F000000 4096) \<and>
    (\<forall>v. va_path v \<notin> va_path ` (set (pages_from (VKERN_START + kstart) n) \<union> set (pages_from MMIO_BASE 4096)) \<longrightarrow>
       translate (mem s') kpt v = None)"
proof -
  let ?va = "VKERN_START + kstart"
  obtain s1 where s1: "kalloc s = (Some kpt, s1)" "pt_wf s1 kpt fs" "\<And>va. translate (mem s1) kpt va = None"
    using fresh_table [OF fs] by blast
  have "4 * n \<le> length fs" using enough by simp
  from kernel_region_maps [OF s1(2,3) this k] obtain s2 used fs2 where
    s2: "map_region kpt ?va kstart (kend - kstart) 0 s1 = Some (None, s2)"
      "fs = used @ fs2" "length used \<le> 4 * n" "pt_wf s2 kpt fs2"
      "list_all2 (\<lambda>v p. translate (mem s2) kpt v = Some p) (pages_from ?va n) (pages_from kstart n)"
      "\<And>v. va_path v \<notin> va_path ` set (pages_from ?va n) \<Longrightarrow> translate (mem s2) kpt v = None"
    by blast
  note apart = kernel_mmio_apart [OF k(3,4)]
  have unmapped: "translate (mem s2) kpt v = None" if "v \<in> set (pages_from MMIO_BASE 4096)" for v
    using s2(6) [of v] apart [OF that] by auto
  have "4 * 4096 \<le> length fs2" using enough s2(2,3) by simp
  from device_region_maps [OF s2(4) this unmapped] obtain s3 used3 rest where
    s3: "map_region kpt MMIO_BASE 0x3F000000 0x1000000 1 s2 = Some (None, s3)"
      "fs2 = used3 @ rest" "length used3 \<le> 4 * 4096" "pt_wf s3 kpt rest"
      "list_all2 (\<lambda>v p. translate (mem s3) kpt v = Some p) (pages_from MMIO_BASE 4096) (pages_from 0x3F000000 4096)"
      "\<And>v. va_path v \<notin> va_path ` set (pages_from MMIO_BASE 4096) \<Longrightarrow> translate (mem s3) kpt v = translate (mem s2) kpt v"
    by blast
  have "translate (mem s3) kpt w = translate (mem s2) kpt w" if "w \<in> set (pages_from ?va n)" for w
    using apart [OF _ that] by (intro s3(6)) fastforce
  with s2(5) have kern: "list_all2 (\<lambda>v p. translate (mem s3) kpt v = Some p) (pages_from ?va n) (pages_from kstart n)"
    by (elim list.rel_mono_strong) auto
  have other: "translate (mem s3) kpt v = None"
    if "va_path v \<notin> va_path ` (set (pages_from ?va n) \<union> set (pages_from MMIO_BASE 4096))" for v
    using s3(6) [of v] s2(6) [of v] that by (simp add: image_Un)
  have "make_kpagetable kstart kend junk1 junk2 s = Some (kpt, s3)"
    using s1(1) s2(1) s3(1) junk
    by (simp add: make_kpagetable_def returned_def) (simp add: memory_map_defs returned_def)
  moreover have "fs = (used @ used3) @ rest" "length (used @ used3) \<le> 4 * n + 4 * 4096"
    using s2(2,3) s3(2,3) by simp_all
  ultimately show ?thesis using s3(4,5) kern other by blast
qed

section \<open>What page-table code leaves alone\<close>

lemma kalloc_frame: "kalloc s = (r, s') \<Longrightarrow> kmem.more s' = kmem.more s"
  using alloc_frame(1) [of s] by simp

lemma walk_frame:
  "get_physical_page_step i pt va pa kind s = (r, s') \<Longrightarrow> kmem.more s' = kmem.more s"
  by (auto simp: get_physical_page_step_def Let_def kmem_frame dest: kalloc_frame
      split: if_splits option.splits prod.splits)

lemma walk_loop_frame:
  "get_physical_page_loop i pt va pa kind s = (r, s') \<Longrightarrow> kmem.more s' = kmem.more s"
proof (induction "4 - i" arbitrary: i pt s)
  case 0
  then show ?case by (simp add: get_physical_page_loop.simps)
next
  case (Suc n)
  obtain q t where q: "get_physical_page_step i pt va pa kind s = (q, t)" by fastforce
  then have t: "kmem.more t = kmem.more s" by (rule walk_frame)
  have loop: "get_physical_page_loop i pt va pa kind s =
      (case q of Inl r \<Rightarrow> (r, t) | Inr next \<Rightarrow> get_physical_page_loop (i + 1) next va pa kind t)"
  proof -
    have "i \<le> 3" using Suc.hyps(2) by simp
    then show ?thesis using q by (subst get_physical_page_loop.simps) (simp split: sum.splits)
  qed
  have "n = 4 - (i + 1)" using Suc.hyps(2) by simp
  from Suc.hyps(1) [OF this] Suc.prems t show ?case unfolding loop by (cases q) auto
qed

lemma map_page_frame: "map_page pt va pa kind s = (r, s') \<Longrightarrow> kmem.more s' = kmem.more s"
  by (auto simp: map_page_def get_physical_page_def Let_def dest: walk_loop_frame split: prod.splits)

lemma free_page_frame: "kmem.more (free_page pt va s) = kmem.more (s :: 'a kmem_scheme)"
proof -
  have "kmem.more (free_page_ascend levels va i s) = kmem.more s" for levels i and s :: "'a kmem_scheme"
    by (induction i arbitrary: s) (simp_all add: Let_def kmem_frame)
  then show ?thesis by (simp add: free_page_def kmem_frame split: option.splits)
qed

lemma unmap_region_frame:
  assumes "unmap_region pt va va_end s = Some s'"
  shows "kmem.more s' = kmem.more s"
proof (rule unmap_region.raw_induct [where P = "\<lambda>pt va va_end s s'. kmem.more s' = kmem.more s", OF _ assms])
  fix f :: "u64 \<Rightarrow> u64 \<Rightarrow> u64 \<Rightarrow> 'a kmem_scheme \<Rightarrow> 'a kmem_scheme option" and pt va va_end s s'
  assume IH: "\<And>pt va va_end s s'. f pt va va_end s = Some s' \<Longrightarrow> kmem.more s' = kmem.more s"
    and eq: "(if va < va_end then f pt (va + PageSize) va_end (free_page pt va s) else Some s) = Some s'"
  show "kmem.more s' = kmem.more s"
    using eq IH [of pt "va + PageSize" va_end "free_page pt va s" s'] by (simp add: free_page_frame split: if_splits)
qed

lemma map_region_loop_frame:
  assumes "map_region_loop pt va_start va_end va pa kind s = Some (r, s')"
  shows "kmem.more s' = kmem.more s"
proof -
  let ?P = "\<lambda>pt va_start va_end va pa kind (s :: 'a kmem_scheme) (q :: int option \<times> 'a kmem_scheme). kmem.more (snd q) = kmem.more s"
  have "?P pt va_start va_end va pa kind s (r, s')"
  proof (rule map_region_loop.raw_induct [where P = ?P, OF _ assms])
    fix f :: "u64 \<Rightarrow> u64 \<Rightarrow> u64 \<Rightarrow> u64 \<Rightarrow> u64 \<Rightarrow> u8 \<Rightarrow> 'a kmem_scheme \<Rightarrow> (int option \<times> 'a kmem_scheme) option"
      and pt va_start va_end va pa kind s q
    assume IH: "\<And>pt va_start va_end va pa kind s q. f pt va_start va_end va pa kind s = Some q \<Longrightarrow> kmem.more (snd q) = kmem.more s"
      and eq: "(if va < va_end
        then case map_page pt va pa kind s of (r, s1) \<Rightarrow>
               if r = -1 then (case unmap_region pt va_start va s1 of None \<Rightarrow> None | Some s2 \<Rightarrow> Some (Some (-1), s2))
               else f pt va_start va_end (va + PageSize) (pa + PageSize) kind s1
        else Some (None, s)) = Some q"
    obtain r1 s1 where m: "map_page pt va pa kind s = (r1, s1)" by fastforce
    then have "kmem.more s1 = kmem.more s" by (rule map_page_frame)
    with eq m IH [of pt va_start va_end "va + PageSize" "pa + PageSize" kind s1 q] show "kmem.more (snd q) = kmem.more s"
      by (auto dest: unmap_region_frame split: if_splits option.splits)
  qed
  then show ?thesis by simp
qed

lemma map_region_frame: "map_region pt va pa sz kind s = Some (r, s') \<Longrightarrow> kmem.more s' = kmem.more s"
  by (auto simp: map_region_def dest: map_region_loop_frame split: if_splits)

lemma make_kpagetable_frame:
  "make_kpagetable kstart kend junk1 junk2 s = Some (pt, s') \<Longrightarrow> kmem.more s' = kmem.more s"
  by (auto simp: make_kpagetable_def Let_def dest!: map_region_frame kalloc_frame split: if_splits option.splits prod.splits)

section \<open>Termination of the region loops\<close>

lemma next_page:
  assumes "page_aligned va" "page_aligned va_end" "va < va_end"
  shows "page_aligned (va + PageSize)" "unat (va + PageSize) = unat va + 4096"
    "unat va_end - unat (va + PageSize) < unat va_end - unat va"
proof -
  show "page_aligned (va + PageSize)"
    using assms(1) by (rule page_aligned_add) (simp add: page_aligned_def PageSize_def)
  obtain k where k: "unat va = 4096 * k" using assms(1) by (rule page_alignedE)
  obtain l where l: "unat va_end = 4096 * l" using assms(2) by (rule page_alignedE)
  have "k < l" using assms(3) k l by (simp add: word_less_nat_alt)
  then have "unat va + 4096 \<le> unat va_end" using k l by simp
  then show "unat (va + PageSize) = unat va + 4096"
    unfolding PageSize_def using unat64_less [of va_end] by (intro unat_add_page) simp
  with \<open>unat va + 4096 \<le> unat va_end\<close>
  show "unat va_end - unat (va + PageSize) < unat va_end - unat va" by simp
qed

lemma unmap_region_returns:
  assumes "page_aligned va" "page_aligned va_end"
  shows "\<exists>s'. unmap_region pt va va_end s = Some s'"
  using assms(1)
proof (induction "unat va_end - unat va" arbitrary: va s rule: less_induct)
  case less
  show ?case
  proof (cases "va < va_end")
    case True
    note up = next_page [OF less.prems assms(2) True]
    obtain s' where "unmap_region pt (va + PageSize) va_end (free_page pt va s) = Some s'"
      using less.hyps [OF up(3,1)] by blast
    with True show ?thesis by (subst unmap_region.simps) simp
  qed (subst unmap_region.simps, simp)
qed

lemma map_region_loop_returns:
  assumes "page_aligned va_start" "page_aligned va_end" "page_aligned va"
  shows "\<exists>r. map_region_loop pt va_start va_end va pa kind s = Some r"
  using assms(3)
proof (induction "unat va_end - unat va" arbitrary: va pa s rule: less_induct)
  case less
  show ?case
  proof (cases "va < va_end")
    case True
    note up = next_page [OF less.prems assms(2) True]
    obtain r s1 where m: "map_page pt va pa kind s = (r, s1)"
      by (cases "map_page pt va pa kind s")
    obtain s2 where "unmap_region pt va_start va s1 = Some s2"
      using unmap_region_returns [OF assms(1) less.prems] by blast
    moreover obtain q where "map_region_loop pt va_start va_end (va + PageSize) (pa + PageSize) kind s1
        = Some q"
      using less.hyps [OF up(3,1)] by blast
    ultimately show ?thesis using True m by (subst map_region_loop.simps) simp
  qed (subst map_region_loop.simps, simp)
qed

section \<open>Freeing\<close>

lemma free_page_descend_stops:
  assumes "k < 5" "i \<le> k" "entry m (levels ! 0) (free_index va k) = None" "levels \<noteq> []"
  shows "free_page_descend m va levels i = None"
  using assms
proof (induction m va levels i rule: free_page_descend.induct)
  case (1 m va levels i)
  show ?case
  proof (cases "i = k")
    case True
    then show ?thesis using "1.prems"
      by (subst free_page_descend.simps) (simp add: GET_PAGE_SET_entry)
  next
    case False
    with "1" show ?thesis by (subst free_page_descend.simps) (auto simp: nth_append)
  qed
qed

lemma free_page_descend_cong:
  "(\<And>k. k \<le> 4 \<Longrightarrow> free_index va k = free_index va' k) \<Longrightarrow>
   free_page_descend m va levels i = free_page_descend m va' levels i"
proof (induction m va levels i rule: free_page_descend.induct)
  case (1 m va levels i)
  then show ?case
    by (subst (1 2) free_page_descend.simps) auto
qed

lemma unat_free_index: "unat (free_index va k) = unat va div 2 ^ (48 - k) mod 512"
proof -
  have "free_index va k = take_bit 9 (drop_bit (48 - k) va)"
    by (simp add: free_index_def take_bit_eq_mask mask_eq_exp_minus_1)
  then have "unat (free_index va k) = take_bit 9 (drop_bit (48 - k) (unat va))"
    by (simp add: unsigned_take_bit_eq unsigned_drop_bit_eq take_bit_nat_eq_self unat64_less)
  then show ?thesis by (simp add: take_bit_eq_mod drop_bit_eq_div)
qed

lemma free_index_low:
  assumes "va < 0x100000000000" "k \<le> 4"
  shows "free_index va k = 0"
proof -
  have "unat va < 2 ^ 44" using assms(1) by (simp add: word_less_nat_alt)
  also have "(2 :: nat) ^ 44 \<le> 2 ^ (48 - k)" using assms(2) by (intro power_increasing) simp_all
  finally have "unat (free_index va k) = 0" by (simp add: unat_free_index)
  then show ?thesis by (simp add: unsigned_eq_0_iff)
qed

lemma free_index_kernel:
  assumes "va < 0x100000000000"
  shows "free_index (VKERN_START + va) 1 = 0x1FE" "free_index (VKERN_START + va) 2 = 0x1FC"
    "free_index (VKERN_START + va) 3 = 0x1F8" "free_index (VKERN_START + va) 4 = 0x1F0"
proof -
  have va: "unat va < 17592186044416" using assms by (simp add: word_less_nat_alt)
  then have v: "unat (VKERN_START + va) = 18446462598732840960 + unat va"
    using unat_add_lem [of VKERN_START va] by (simp add: VKERN_START_def)
  have "(18446462598732840960 + n) div 140737488355328 = 131070" "(18446462598732840960 + n) div 70368744177664 = 262140"
    "(18446462598732840960 + n) div 35184372088832 = 524280" "(18446462598732840960 + n) div 17592186044416 = 1048560"
    if "n < 17592186044416" for n :: nat
    using that by simp_all
  from this [OF va] show "free_index (VKERN_START + va) 1 = 0x1FE" "free_index (VKERN_START + va) 2 = 0x1FC"
    "free_index (VKERN_START + va) 3 = 0x1F8" "free_index (VKERN_START + va) 4 = 0x1F0"
    by (simp_all add: word_eq_iff_unsigned [where ?'a = nat] unat_free_index v)
qed

lemma free_page_descend_zero:
  assumes "translate (mem s) pt 0 = Some a" "\<And>k. k \<le> 4 \<Longrightarrow> free_index va k = 0"
  shows "\<exists>levels. free_page_descend (mem s) va [pt] 1 = Some levels \<and> length levels = 5 \<and> levels ! 4 = a"
proof -
  have "va_path 0 = [0, 0, 0, 0]" by (simp add: va_path_def LVL_ADDR_def)
  then obtain t1 t2 t3 where t: "entry (mem s) pt 0 = Some t1" "entry (mem s) t1 0 = Some t2"
    "entry (mem s) t2 0 = Some t3" "entry (mem s) t3 0 = Some a"
    using assms(1) by (auto simp: translate_def split: option.splits)
  have e: "GET_PHYSICAL_ADDR (load64 (mem s) (slot p 0)) = q" if "entry (mem s) p 0 = Some q" for p q
    using that by (auto simp: entry_def Let_def split: if_splits)
  have set: "GET_PAGE_SET (load64 (mem s) (slot pt 0)) \<noteq> 0" using t(1) by (simp add: GET_PAGE_SET_entry)
  have "free_page_descend (mem s) va [pt] 1 = Some [pt, t1, t2, t3, a]"
    using set assms(2) e [OF t(1)] e [OF t(2)] e [OF t(3)] e [OF t(4)]
    by (simp add: free_page_descend.simps)
  then show ?thesis by simp
qed

lemma kfree_null_target:
  assumes "load64 (mem s) a = 0" "page_aligned a" "a \<noteq> 0"
  shows "kfree (At a) s = s\<lparr>mem := store64 (zero_page (mem s) 0) 0 (page_frame_linked_list s),
    page_frame_linked_list := 0\<rparr>"
proof -
  have out: "\<And>x. in_page a x \<Longrightarrow> \<not> in_page 0 x"
    using assms(2,3) pages_disjoint [of a 0] by (auto simp: page_aligned_def)
  have "load64 (zero_page (mem s) 0) (a + 0) = load64 (mem s) (a + 0)"
    by (rule load64_page_cong) (use out in auto)
  moreover have "load64 (store64 (zero_page (mem s) 0) (0 + 0) (page_frame_linked_list s)) (a + 0) =
      load64 (mem s) (a + 0)"
    by (rule load64_page_cong) (use out in \<open>auto simp: store64_other_page [of 0 0, simplified]\<close>)
  ultimately show ?thesis using assms(1) by (simp add: kfree_def Let_def)
qed

lemma fold_unchanged: "(\<And>i. i \<in> set xs \<Longrightarrow> f i s = s) \<Longrightarrow> fold f xs s = s"
  by (induction xs) auto

lemma of_nat_index: "i < 512 \<Longrightarrow> (of_nat i :: u64) < 512"
  by (simp add: word_less_nat_alt unat_of_nat take_bit_nat_eq_self)

lemma free_children_empty:
  assumes "\<And>i. i < 512 \<Longrightarrow> load64 (mem s) (slot t i) = 0"
  shows "free_children d t s = s"
  by (cases d) (auto intro!: fold_unchanged
      simp: assms of_nat_index PENTRY_CNT_def GET_PAGE_SET_bit)

lemma for_each_unchanged: "(\<And>i. i \<in> set xs \<Longrightarrow> f i s = Inr s) \<Longrightarrow> for_each f xs s = Inr s"
  by (induction xs) auto

section \<open>User copies\<close>

lemma copy_from_user_loop_multiple:
  assumes "copy_from_user_loop pt va to sz s = Some s'"
  shows "page_aligned sz"
proof (rule copy_from_user_loop.raw_induct [where P = "\<lambda>pt va to sz s s'. page_aligned sz", OF _ assms])
  fix f :: "u64 \<Rightarrow> u64 \<Rightarrow> u64 \<Rightarrow> u64 \<Rightarrow> 'a kmem_scheme \<Rightarrow> 'a kmem_scheme option"
    and pt va to sz :: u64 and s s' :: "'a kmem_scheme"
  assume IH: "\<And>pt va to sz s s'. f pt va to sz s = Some s' \<Longrightarrow> page_aligned sz"
    and eq: "(if sz > 0
      then (let va = va + 8 * PageSize; to = to + sz; (frame, s1) = get_physical_page pt va 0 2 s
            in f pt va to (sz - PageSize) (s1\<lparr>mem := strcpy frame to sz (mem s1)\<rparr>))
      else Some s) = Some s'"
  show "page_aligned sz"
  proof (cases "sz > 0")
    case True
    with eq IH have "page_aligned (sz - PageSize)"
      by (auto simp: Let_def split: prod.splits)
    then have "page_aligned (sz - PageSize + PageSize)"
      by (rule page_aligned_add) (simp add: page_aligned_def PageSize_def)
    then show ?thesis by simp
  next
    case False
    then have "sz = 0" by (simp add: word_gt_0)
    then show ?thesis by (simp add: page_aligned_def)
  qed
qed

section \<open>Properties\<close>

text \<open>
  C2: \<open>map_region\<close> maps a whole region. For an aligned region of \<open>n\<close> unmapped pages, with four
  free frames per page, every page translates afterwards to the physical page at the same
  offset, every page outside the region translates as before, and the tables stay well formed.
\<close>

theorem map_region_maps_region:
  assumes "pt_wf s pt fs" "kind \<le> 2" "4 * n \<le> length fs"
    and "page_aligned va" "page_aligned pa" "unat sz = 4096 * n"
    and "unat va + unat sz < 18446744073709551616" "n \<le> 68719476736"
    and "pa \<noteq> 0" "unat pa + unat sz \<le> 68719476736"
    and "\<And>v. v \<in> set (pages_from va n) \<Longrightarrow> translate (mem s) pt v = None"
  shows "\<exists>s' fs'. map_region pt va pa sz kind s = Some (None, s') \<and> pt_wf s' pt fs' \<and>
    list_all2 (\<lambda>v p. translate (mem s') pt v = Some p) (pages_from va n) (pages_from pa n) \<and>
    (\<forall>v. va_path v \<notin> va_path ` set (pages_from va n) \<longrightarrow>
       translate (mem s') pt v = translate (mem s) pt v)"
  using map_region_maps [OF assms] unfolding translate_def by (metis va_path)

theorem map_region_maps_region_witness:
  "\<exists>s'. map_region 0x90000 0x400000 0x7000 0x2000 2 boot_table = Some (None, s') \<and>
     translate (mem s') 0x90000 0x400000 = Some 0x7000 \<and>
     translate (mem s') 0x90000 0x401000 = Some 0x8000"
proof -
  have "pages_from c 2 = [c, c + 4096]" for c by (simp add: numeral_2_eq_2)
  with map_region_maps_region [OF boot_table_wf(1), of 2 2 "0x400000" "0x7000" "0x2000"]
  show ?thesis using boot_table_wf(2) by (auto simp: page_aligned_def)
qed

text \<open>
  C14: \<open>map_region\<close> always returns: whatever the region, the tables and the free list, its loop
  and the clean-up it starts on failure end.
\<close>

theorem map_region_returns:
  "\<exists>r. map_region pt va pa sz kind s = Some r"
proof (cases "page_aligned va \<and> page_aligned (va + sz)")
  case True
  then show ?thesis
    using map_region_loop_returns [of va "va + sz" va] by (auto simp: map_region_def)
next
  case False
  then have "va mod PageSize \<noteq> 0 \<or> (va + sz) mod PageSize \<noteq> 0"
    by (simp only: page_aligned_def PageSize_def de_Morgan_conj)
  then have "map_region pt va pa sz kind s = Some (Some (-1), s)"
    unfolding map_region_def by (intro if_P) (elim disjE; simp only: simp_thms)
  then show ?thesis by blast
qed

text \<open>
  C15: \<open>free_page\<close> does not free the page it is given. For every address below \<open>2 ^ 44\<close> the four indices it
  computes are all 0, so its descent does not depend on the address: the frame it hands to \<open>kfree\<close> is
  that of virtual address 0, when that is mapped. For the kernel's addresses the indices are
  \<^verbatim>\<open>0x1FE\<close>, \<^verbatim>\<open>0x1FC\<close>, \<^verbatim>\<open>0x1F8\<close> and \<^verbatim>\<open>0x1F0\<close>, all tested in the root table; where one of those entries
  is unset, nothing is freed or changed, even when the page is mapped.
\<close>

theorem free_page_ignores_address:
  "(va < 0x100000000000 \<longrightarrow>
      free_page_descend (mem s) va [pt] 1 = free_page_descend (mem s) 0 [pt] 1 \<and>
      (\<forall>a. translate (mem s) pt 0 = Some a \<longrightarrow>
         (\<exists>levels. free_page_descend (mem s) va [pt] 1 = Some levels \<and> length levels = 5 \<and> levels ! 4 = a))) \<and>
   (va < 0x100000000000 \<longrightarrow> (\<exists>i\<in>{0x1FE, 0x1FC, 0x1F8, 0x1F0}. entry (mem s) pt i = None) \<longrightarrow>
      free_page pt (VKERN_START + va) s = s)"
proof (intro conjI impI)
  assume va: "va < 0x100000000000"
  have low: "free_index va k = 0" "free_index 0 k = 0" if "k \<le> 4" for k
    using free_index_low [OF va that] by (simp_all add: free_index_def)
  show "free_page_descend (mem s) va [pt] 1 = free_page_descend (mem s) 0 [pt] 1"
    by (rule free_page_descend_cong) (simp add: low)
  show "\<forall>a. translate (mem s) pt 0 = Some a \<longrightarrow>
      (\<exists>levels. free_page_descend (mem s) va [pt] 1 = Some levels \<and> length levels = 5 \<and> levels ! 4 = a)"
    using free_page_descend_zero [of s pt _ va] low by blast
next
  assume va: "va < 0x100000000000" and e: "\<exists>i\<in>{0x1FE, 0x1FC, 0x1F8, 0x1F0}. entry (mem s) pt i = None"
  have "\<exists>k\<in>{1, 2, 3, 4}. entry (mem s) pt (free_index (VKERN_START + va) k) = None"
    using e free_index_kernel [OF va] by auto
  then obtain k where "k \<in> {1, 2, 3, 4}" "entry (mem s) pt (free_index (VKERN_START + va) k) = None" by blast
  then have "1 \<le> k" "k < 5" "entry (mem s) pt (free_index (VKERN_START + va) k) = None" by auto
  then show "free_page pt (VKERN_START + va) s = s"
    using free_page_descend_stops [of k 1 "mem s" "[pt]" "VKERN_START + va"] by (simp add: free_page_def)
qed

theorem free_page_ignores_address_witness:
  "\<exists>s' levels. get_physical_page 0x90000 0 0x7000 2 boot_table = (0x7000, s') \<and>
     free_page_descend (mem s') 0x400000 [0x90000] 1 = Some levels \<and> levels ! 4 = 0x7000 \<and>
     free_page 0x90000 (VKERN_START + 0x80000) boot_table = boot_table"
proof -
  obtain r s' where call: "get_physical_page 0x90000 0 0x7000 2 boot_table = (r, s')"
    by (cases "get_physical_page 0x90000 0 0x7000 2 boot_table")
  have "walked 0x90000 0 0x7000 4 boot_table (pages_from 0x91000 257904) r s'"
    by (rule get_physical_page_walked [OF boot_table_wf(1) _ _ call]) simp_all
  then have m: "r = 0x7000" "translate (mem s') 0x90000 0 = Some 0x7000"
    using boot_table_wf(2) unfolding walked_def by auto
  have "load64 (mem boot_table) (slot 0x90000 0x1FE) = 0"
    using kalloc_some(1) [OF boot_frames] by (simp add: boot_table_def load_slot_zero_page)
  then have "entry (mem boot_table) 0x90000 0x1FE = None" by (simp add: entry_def)
  then have "free_page 0x90000 (VKERN_START + 0x80000) boot_table = boot_table"
    using free_page_ignores_address [of "0x80000" boot_table "0x90000"] by simp
  moreover obtain levels where "free_page_descend (mem s') 0x400000 [0x90000] 1 = Some levels" "levels ! 4 = 0x7000"
    using free_page_ignores_address [of "0x400000" s' "0x90000"] m(2) by fastforce
  ultimately show ?thesis using call m(1) by blast
qed

text \<open>
  Freeing an empty table loses every free frame. \<open>free_pagetable\<close> passes the table where
  \<open>kfree\<close> expects a pointer to the page; the first entry, zero, becomes the new head of the
  free list, and the next allocation fails however many frames were free.
\<close>

theorem free_pagetable_loses_free_list:
  assumes "\<And>i. i < 512 \<Longrightarrow> load64 (mem s) (slot pt i) = 0" "page_aligned pt" "pt \<noteq> 0"
  shows "page_frame_linked_list (free_pagetable pt s) = 0 \<and>
    fst (kalloc (free_pagetable pt s)) = None"
proof -
  have "load64 (mem s) pt = 0" using assms(1) [of 0] by (simp add: slot_def)
  from kfree_null_target [OF this assms(2,3)]
  have "page_frame_linked_list (free_pagetable pt s) = 0"
    using free_children_empty [of s pt 3] assms(1) by (simp add: free_pagetable_def)
  then show ?thesis by (simp add: kalloc_none)
qed

theorem free_pagetable_loses_free_list_witness:
  "page_frame_linked_list (free_pagetable 0x90000 boot_table) = 0 \<and>
     fst (kalloc (free_pagetable 0x90000 boot_table)) = None"
proof (rule free_pagetable_loses_free_list)
  show "load64 (mem boot_table) (slot 0x90000 i) = 0" if "i < 512" for i
    using kalloc_some(1) [OF boot_frames] that by (simp add: boot_table_def load_slot_zero_page)
qed (simp_all add: page_aligned_def)

text \<open>
  \<open>clone_pagetable\<close> of an empty table reports success without writing to the target table:
  whatever the target is, the only bytes that change are those of the local array \<open>tos\<close>.
\<close>

theorem clone_pagetable_empty_source:
  assumes "\<And>i. i < 512 \<Longrightarrow> load64 (mem s) (slot from i) = 0"
    and "page_aligned from" "\<And>x. in_page from x \<Longrightarrow> \<not> x - tos < 8"
  shows "clone_pagetable tos frame from to s =
    (0, s\<lparr>mem := (store64 (mem s) tos tos)(tos := mem s from)\<rparr>)"
proof -
  define m1 where "m1 = store64 (mem s) tos tos"
  have "m1 from = mem s from" using assms(3) [of "from"] by (simp add: m1_def store64_outside)
  define s2 where "s2 = s\<lparr>mem := m1(tos := mem s from)\<rparr>"
  have same: "mem s2 x = mem s x" if "in_page from x" for x
    using assms(3) [OF that] by (auto simp: s2_def m1_def store64_outside)
  have "load64 (mem s2) (slot from i) = 0" if "i < 512" for i
    using load_slot_other_page [OF same that] assms(1) [OF that] by simp
  then have "clone_table 3 from to tos frame s2 = Inr s2"
    by (simp add: numeral_3_eq_3)
      (intro for_each_unchanged, simp add: of_nat_index PENTRY_CNT_def GET_PAGE_SET_bit)
  moreover have "load64 m1 tos = tos" by (simp add: m1_def)
  ultimately show ?thesis
    using \<open>m1 from = mem s from\<close>
    by (simp add: clone_pagetable_def strcpy_copies PageSize_def tos_at_def slot_def Let_def
        flip: m1_def s2_def)
qed

theorem clone_pagetable_empty_source_witness:
  "fst (clone_pagetable 0x80010 0x1234 0x90000 0x91000 boot_table) = 0"
proof -
  have "\<And>i. i < 512 \<Longrightarrow> load64 (mem boot_table) (slot 0x90000 i) = 0"
    using kalloc_some(1) [OF boot_frames] by (simp add: boot_table_def load_slot_zero_page)
  moreover have "\<not> x - 0x80010 < 8" if "in_page 0x90000 x" for x
  proof
    assume "x - 0x80010 < 8"
    with offset_bytes_in_page [of "0x10"] have "in_page 0x80000 x" by (force simp: in_page_def)
    with pages_disjoint [of "0x90000" "0x80000"] that show False by (simp add: page_aligned_def)
  qed
  ultimately show ?thesis
    using clone_pagetable_empty_source [of boot_table "0x90000" "0x80010"] by (simp add: page_aligned_def)
qed

text \<open>
  C20: \<open>copy_from_user\<close> of a range that does not end inside its first page returns only if the
  remaining size it computes is a multiple of the page size; otherwise its loop never ends.
\<close>

theorem copy_from_user_diverges:
  assumes "get_physical_page user_pgtb (from div PageSize * PageSize) 0 2 s = (frame, s1)"
    and "\<not> (frame + from mod PageSize) mod PageSize + sz < PageSize"
    and "\<not> page_aligned (sz - PageSize + (frame + from mod PageSize))"
  shows "copy_from_user user_pgtb from to sz s = None"
proof (rule ccontr)
  assume "copy_from_user user_pgtb from to sz s \<noteq> None"
  then obtain s' where
    "copy_from_user_loop user_pgtb (from div PageSize * PageSize) to
       (sz - PageSize + (frame + from mod PageSize))
       (s1\<lparr>mem := strcpy (frame + from mod PageSize) to sz (mem s1)\<rparr>) = Some s'"
    using assms(1,2) by (auto simp: copy_from_user_def Let_def)
  then have "page_aligned (sz - PageSize + (frame + from mod PageSize))"
    by (rule copy_from_user_loop_multiple)
  with assms(3) show False by contradiction
qed

theorem copy_from_user_diverges_witness:
  "\<exists>s. copy_from_user 0x90000 0x400000 0x80000 0x1001 (s :: kmem) = None"
proof -
  obtain r s' where call: "get_physical_page 0x90000 0x400000 0x7000 2 boot_table = (r, s')"
    by (cases "get_physical_page 0x90000 0x400000 0x7000 2 boot_table")
  have "walked 0x90000 0x400000 0x7000 4 boot_table (pages_from 0x91000 257904) r s'"
    by (rule get_physical_page_walked [OF boot_table_wf(1) _ _ call]) simp_all
  then have "translate (mem s') 0x90000 0x400000 = Some 0x7000"
    using boot_table_wf(2) unfolding walked_def by auto
  then have "get_physical_page 0x90000 0x400000 0 2 s' = (0x7000, s')"
    by (rule get_physical_page_mapped)
  then have "copy_from_user 0x90000 0x400000 0x80000 0x1001 s' = None"
    by (intro copy_from_user_diverges [where frame = "0x7000" and ?s1.0 = s'])
      (simp_all add: PageSize_def page_aligned_def)
  then show ?thesis by blast
qed

end
