(* ===== verification/Kernel_Map.thy ===== *)
theory Kernel_Map
  imports Vmem_Region
begin

text \<open>
  The address space the kernel gives itself. \<open>kernel_space\<close> is its specification, \<open>make_kpagetable\<close> of
  \<^verbatim>\<open>kernel/vmem.c\<close> builds it, and every address of \<^verbatim>\<open>memory_map.h\<close> is looked up in it.
\<close>

definition page_of :: "u64 \<Rightarrow> u64" where
  "page_of v = push_bit 12 (take_bit 36 (drop_bit 12 v))"

definition kernel_space :: "u64 \<Rightarrow> u64 \<Rightarrow> u64 \<Rightarrow> u64 option" where
  "kernel_space kstart kend v =
     (let p = page_of v
      in if kstart \<le> p \<and> p < kend \<or> 0x3F000000 \<le> p \<and> p < 0x40000000 then Some p else None)"

section \<open>Lemmas\<close>

lemma unat_page_of: "unat (page_of v) = unat v div 4096 mod 68719476736 * 4096"
proof -
  have "unat v div 4096 mod 68719476736 * 4096 < 18446744073709551616"
    using mod_less_divisor [of 68719476736 "unat v div 4096"] by linarith
  then show ?thesis
    by (simp add: page_of_def push_bit_eq_mult unat_mult_lem [THEN iffD1] unat_page_number unat_word_ariths mult.commute)
qed

lemma va_path_page_of: "va_path v = va_path w \<longleftrightarrow> page_of v = page_of w"
  by (simp add: va_path_identifies_page word_eq_iff_unsigned [where ?'a = nat] unat_page_of unat_page_number)

lemma page_of_kernel_page:
  assumes "page_aligned p" "unat p + 4096 * i < 281474976710656"
  shows "page_of (VKERN_START + p + of_nat i * 4096) = p + of_nat i * 4096"
    "unat (p + of_nat i * 4096) = unat p + 4096 * i"
proof -
  obtain k where k: "unat p = 4096 * k" using assms(1) by (rule page_alignedE)
  have i: "unat (of_nat i * 4096 :: u64) = 4096 * i"
    using assms(2) by (simp add: unat_word_ariths unat_of_nat take_bit_nat_eq_self)
  then show u: "unat (p + of_nat i * 4096) = unat p + 4096 * i"
    using assms(2) by (simp add: unat_word_ariths)
  have "unat (VKERN_START + (p + of_nat i * 4096)) = 18446462598732840960 + unat (p + of_nat i * 4096)"
    using u assms(2) unat_add_lem [of VKERN_START "p + of_nat i * 4096"] by (simp add: VKERN_START_def)
  then have "unat (VKERN_START + p + of_nat i * 4096) div 4096 = k + i + 65535 * 68719476736"
    unfolding u k by (simp add: add.assoc)
  then have "unat (VKERN_START + p + of_nat i * 4096) div 4096 mod 68719476736 = (k + i) mod 68719476736"
    by (simp only: mod_mult_self1)
  moreover have "k + i < 68719476736" using assms(2) k by simp
  ultimately have "unat (page_of (VKERN_START + p + of_nat i * 4096)) = 4096 * (k + i)"
    by (simp add: unat_page_of)
  then show "page_of (VKERN_START + p + of_nat i * 4096) = p + of_nat i * 4096"
    using u k by (simp add: word_eq_iff_unsigned [where ?'a = nat])
qed

definition in_region :: "u64 \<Rightarrow> nat \<Rightarrow> u64 \<Rightarrow> bool" where
  "in_region p n v \<longleftrightarrow> unat p \<le> unat (page_of v) \<and> unat (page_of v) < unat p + 4096 * n"

lemma in_region_index:
  assumes "page_aligned p" "unat p + 4096 * n \<le> 281474976710656"
  shows "in_region p n v \<longleftrightarrow> (\<exists>i<n. va_path v = va_path (VKERN_START + p + of_nat i * 4096))"
proof
  assume r: "in_region p n v"
  obtain k where k: "unat p = 4096 * k" using assms(1) by (rule page_alignedE)
  define q where "q = unat v div 4096 mod 68719476736"
  have q: "unat (page_of v) = 4096 * q" by (simp add: unat_page_of q_def)
  with r k have i: "k \<le> q" "q - k < n" by (auto simp: in_region_def)
  note pg = page_of_kernel_page [OF assms(1), of "q - k"]
  have "unat p + 4096 * (q - k) < 281474976710656" using assms(2) i by linarith
  from pg [OF this] have "page_of v = page_of (VKERN_START + p + of_nat (q - k) * 4096)"
    using i k q by (simp add: word_eq_iff_unsigned [where ?'a = nat])
  with i show "\<exists>i<n. va_path v = va_path (VKERN_START + p + of_nat i * 4096)"
    by (auto simp: va_path_page_of)
next
  assume "\<exists>i<n. va_path v = va_path (VKERN_START + p + of_nat i * 4096)"
  then obtain i where i: "i < n" "page_of v = page_of (VKERN_START + p + of_nat i * 4096)"
    by (auto simp: va_path_page_of)
  then have "unat p + 4096 * i < 281474976710656" using assms(2) by linarith
  from page_of_kernel_page [OF assms(1) this] i show "in_region p n v"
    by (simp add: in_region_def)
qed

lemma region_paths:
  assumes "page_aligned p" "unat p + 4096 * n \<le> 281474976710656"
  shows "va_path v \<in> va_path ` set (pages_from (VKERN_START + p) n) \<longleftrightarrow> in_region p n v"
proof -
  have "set (pages_from (VKERN_START + p) n) = (\<lambda>i. VKERN_START + p + of_nat i * 4096) ` {..<n}"
    by (force simp: set_conv_nth nth_pages_from)
  then show ?thesis unfolding in_region_index [OF assms] by auto
qed

lemma region_translate:
  assumes "page_aligned p" "unat p + 4096 * n \<le> 281474976710656"
    and "list_all2 (\<lambda>v q. translate m pt v = Some q) (pages_from (VKERN_START + p) n) (pages_from p n)"
    and "in_region p n v"
  shows "translate m pt v = Some (page_of v)"
proof -
  obtain i where i: "i < n" "va_path v = va_path (VKERN_START + p + of_nat i * 4096)"
    using assms(4) in_region_index [OF assms(1,2)] by blast
  then have "unat p + 4096 * i < 281474976710656" using assms(2) by linarith
  with i have "page_of v = p + of_nat i * 4096"
    using page_of_kernel_page(1) [OF assms(1)] by (simp add: va_path_page_of)
  moreover have "translate m pt (VKERN_START + p + of_nat i * 4096) = Some (p + of_nat i * 4096)"
    using list_all2_nthD [OF assms(3)] i(1) by (simp add: nth_pages_from)
  ultimately show ?thesis using i(2) by (simp add: translate_def)
qed

lemma make_kpagetable_space:
  assumes fs: "frames s (kpt # fs)" "\<And>f. f \<in> set (kpt # fs) \<Longrightarrow> f < 0x1000000000"
    and enough: "4 * n + 4 * 4096 \<le> length fs"
    and k: "page_aligned kstart" "kstart \<noteq> 0" "unat kend = unat kstart + 4096 * n" "kend \<le> 0x3F000000"
    and junk: "junk1 \<noteq> -1" "junk2 \<noteq> -1"
  obtains s' used rest where "make_kpagetable kstart kend junk1 junk2 s = Some (kpt, s')"
    "fs = used @ rest" "length used \<le> 4 * n + 4 * 4096" "pt_wf s' kpt rest"
    "translate (mem s') kpt = kernel_space kstart kend"
proof -
  obtain s' used rest where s': "make_kpagetable kstart kend junk1 junk2 s = Some (kpt, s')"
    "fs = used @ rest" "length used \<le> 4 * n + 4 * 4096" "pt_wf s' kpt rest"
    "list_all2 (\<lambda>v p. translate (mem s') kpt v = Some p)
      (pages_from (VKERN_START + kstart) n) (pages_from kstart n)"
    "list_all2 (\<lambda>v p. translate (mem s') kpt v = Some p)
      (pages_from MMIO_BASE 4096) (pages_from 0x3F000000 4096)"
    "\<And>v. va_path v \<notin> va_path ` (set (pages_from (VKERN_START + kstart) n) \<union> set (pages_from MMIO_BASE 4096)) \<Longrightarrow>
       translate (mem s') kpt v = None"
    using make_kpagetable_maps [OF assms] by blast
  have ke: "unat kend \<le> 1056964608" using k(4) by (simp add: word_le_nat_alt)
  have M: "MMIO_BASE = VKERN_START + 0x3F000000" by (simp add: MMIO_BASE_def)
  have al: "page_aligned 0x3F000000" by (simp add: page_aligned_def)
  have b: "unat kstart + 4096 * n \<le> 281474976710656" "unat (0x3F000000 :: u64) + 4096 * 4096 \<le> 281474976710656"
    using ke k(3) by simp_all
  have "translate (mem s') kpt v = kernel_space kstart kend v" for v
  proof -
    have "kernel_space kstart kend v =
        (if in_region kstart n v \<or> in_region 0x3F000000 4096 v then Some (page_of v) else None)"
      by (simp add: kernel_space_def Let_def in_region_def word_le_nat_alt word_less_nat_alt k(3))
    moreover have "translate (mem s') kpt v = Some (page_of v)" if "in_region kstart n v"
      using k(1) b(1) s'(5) that by (rule region_translate)
    moreover have "translate (mem s') kpt v = Some (page_of v)" if "in_region 0x3F000000 4096 v"
      using al b(2) s'(6) [unfolded M] that by (rule region_translate)
    moreover have "translate (mem s') kpt v = None" if "\<not> in_region kstart n v" "\<not> in_region 0x3F000000 4096 v"
      using that s'(7) [of v] region_paths [OF k(1) b(1), of v] region_paths [OF al b(2), of v]
      by (auto simp: M)
    ultimately show ?thesis by metis
  qed
  then have "translate (mem s') kpt = kernel_space kstart kend" by (rule ext)
  with s'(1-4) show thesis by (rule that)
qed


lemma kernel_space_device:
  assumes "MMIO_BASE \<le> r" "r < MMIO_END"
  shows "kernel_space kstart kend r = Some (r - VKERN_START - r mod 4096)"
proof -
  define q where "q = unat r div 4096 - 4503530907893760"
  have b: "18446462599789805568 \<le> unat r" "unat r < 18446462599806582784"
    using assms by (simp_all add: memory_map_defs word_le_nat_alt word_less_nat_alt)
  then have q: "unat r div 4096 = q + 65535 * 68719476736" "258048 \<le> q" "q < 262144"
    unfolding q_def by linarith+
  then have p: "unat (page_of r) = 4096 * q"
    by (simp only: unat_page_of mod_mult_self1) simp
  have "unat (r - VKERN_START) = unat r - 18446462598732840960"
    using b by (simp add: unat_sub_if' VKERN_START_def)
  moreover have "unat r - 18446462598732840960 = 4096 * q + unat r mod 4096"
  proof -
    have "y - 18446462598732840960 = 4096 * q + x" if "4096 * (q + 65535 * 68719476736) + x = y" for x y :: nat
      using that by simp
    from this [OF mult_div_mod_eq [of 4096 "unat r", unfolded q(1)]] show ?thesis .
  qed
  ultimately have "unat (r - VKERN_START - r mod 4096) = 4096 * q"
    by (simp add: unat_sub_if' unat_mod)
  with p have "page_of r = r - VKERN_START - r mod 4096" by (simp add: word_eq_iff_unsigned [where ?'a = nat])
  moreover have "0x3F000000 \<le> page_of r" "page_of r < 0x40000000"
    using p q by (simp_all add: word_le_nat_alt word_less_nat_alt)
  ultimately show ?thesis by (simp add: kernel_space_def)
qed

lemma registers_in_device_pages:
  "list_all (\<lambda>r. kernel_space kstart kend r = Some (r - VKERN_START - r mod 4096)) peripheral_registers"
proof (rule list.pred_mono_strong)
  show "list_all (\<lambda>r. MMIO_BASE \<le> r \<and> r < MMIO_END) peripheral_registers"
    by (simp add: peripheral_registers_def register_defs)
qed (simp add: kernel_space_device)

lemma core_registers_outside:
  assumes "kend \<le> 0x3F000000"
  shows "list_all (\<lambda>r. kernel_space kstart kend r = None) core_registers"
proof -
  have "\<not> (0x40000000 :: u64) < kend" using assms by (simp add: word_less_nat_alt word_le_nat_alt)
  then show ?thesis
    by (simp add: core_registers_def core_register_defs kernel_space_def page_of_def Let_def)
qed

section \<open>Properties\<close>

text \<open>
  C4: \<open>make_kpagetable\<close> builds the kernel's address space: when enough frames are free and the values
  left in the return register by the two calls of \<open>map_region\<close> are not -1, the tables translate every
  one of the \<open>2 ^ 64\<close> virtual addresses as \<open>kernel_space\<close> says. Bits 48 to 63 do not count, so the
  image and the devices are found at \<open>VKERN_START\<close> plus their physical address and also at the
  physical address itself, and nothing else is mapped. The tables are well formed, take at most
  four frames a page, and the other frames stay free.
\<close>

theorem make_kpagetable_maps_kernel:
  assumes "frames s (kpt # fs)" "\<And>f. f \<in> set (kpt # fs) \<Longrightarrow> f < 0x1000000000"
    and "4 * n + 4 * 4096 \<le> length fs"
    and "page_aligned kstart" "kstart \<noteq> 0" "unat kend = unat kstart + 4096 * n" "kend \<le> 0x3F000000"
    and "junk1 \<noteq> -1" "junk2 \<noteq> -1"
  shows "\<exists>s' used rest. make_kpagetable kstart kend junk1 junk2 s = Some (kpt, s') \<and>
    fs = used @ rest \<and> length used \<le> 4 * n + 4 * 4096 \<and> pt_wf s' kpt rest \<and>
    translate (mem s') kpt = kernel_space kstart kend"
  using make_kpagetable_space [OF assms] by blast

theorem make_kpagetable_maps_kernel_witness:
  "\<exists>s'. make_kpagetable 0x80000 0x90000 0 0 boot_kmem = Some (0x90000, s') \<and>
     translate (mem s') 0x90000 (VKERN_START + 0x80010) = Some 0x80000 \<and>
     translate (mem s') 0x90000 0x8F000 = Some 0x8F000 \<and>
     translate (mem s') 0x90000 MMIO_BASE = Some 0x3F000000 \<and> translate (mem s') 0x90000 RAMFS_START = None"
  using make_kpagetable_maps_kernel [OF boot_frames boot_frames_low, of 16 "0x80000" "0x90000" 0 0]
  by (auto simp: page_aligned_def kernel_space_def page_of_def memory_map_defs)

text \<open>
  C11: the kernel's tables and the register addresses of \<^verbatim>\<open>memory_map.h\<close>. No two registers share an
  address and all are word aligned. Every register of the peripherals is mapped, to the page of its
  physical address, \<open>VKERN_START\<close> below. The timer control and interrupt source registers of the cores
  are given by their physical addresses above \<^verbatim>\<open>MMIO_END\<close> and are not mapped at all, though
  \<^verbatim>\<open>enable_timer_interrupt\<close> and \<^verbatim>\<open>handle_irq\<close> use them after the tables are in force.
\<close>

theorem make_kpagetable_registers:
  assumes "frames s (kpt # fs)" "\<And>f. f \<in> set (kpt # fs) \<Longrightarrow> f < 0x1000000000"
    and "4 * n + 4 * 4096 \<le> length fs"
    and "page_aligned kstart" "kstart \<noteq> 0" "unat kend = unat kstart + 4096 * n" "kend \<le> 0x3F000000"
    and "junk1 \<noteq> -1" "junk2 \<noteq> -1"
  shows "distinct (core_registers @ peripheral_registers) \<and>
    list_all (\<lambda>r. r mod 4 = 0) (core_registers @ peripheral_registers) \<and>
    (\<exists>s'. make_kpagetable kstart kend junk1 junk2 s = Some (kpt, s') \<and>
       list_all (\<lambda>r. translate (mem s') kpt r = Some (r - VKERN_START - r mod 4096)) peripheral_registers \<and>
       list_all (\<lambda>r. translate (mem s') kpt r = None) core_registers)"
proof (intro conjI)
  show "distinct (core_registers @ peripheral_registers)"
    using registers_ascending by (simp add: strict_sorted_iff)
  show "list_all (\<lambda>r. r mod 4 = 0) (core_registers @ peripheral_registers)"
    by (simp add: peripheral_registers_def register_defs core_registers_def core_register_defs)
  obtain s' where s': "make_kpagetable kstart kend junk1 junk2 s = Some (kpt, s')"
    "translate (mem s') kpt = kernel_space kstart kend"
    by (rule make_kpagetable_space [OF assms])
  show "\<exists>s'. make_kpagetable kstart kend junk1 junk2 s = Some (kpt, s') \<and>
      list_all (\<lambda>r. translate (mem s') kpt r = Some (r - VKERN_START - r mod 4096)) peripheral_registers \<and>
      list_all (\<lambda>r. translate (mem s') kpt r = None) core_registers"
    by (intro exI [of _ s'] conjI s'(1))
      (unfold s'(2), rule registers_in_device_pages, rule core_registers_outside [OF assms(7)])
qed

theorem make_kpagetable_registers_witness:
  "\<exists>s'. make_kpagetable 0x80000 0x90000 0 0 boot_kmem = Some (0x90000, s') \<and>
     translate (mem s') 0x90000 AUX_MU_IO = Some 0x3F215000 \<and> translate (mem s') 0x90000 CORE0_IRQ_SRC = None"
proof -
  have *: "AUX_MU_IO \<in> set peripheral_registers" "CORE0_IRQ_SRC \<in> set core_registers"
    "AUX_MU_IO - VKERN_START - AUX_MU_IO mod 4096 = 0x3F215000"
    by (simp_all add: peripheral_registers_def core_registers_def) (simp add: AUX_MU_IO_def memory_map_defs)
  obtain s' where s': "make_kpagetable 0x80000 0x90000 0 0 boot_kmem = Some (0x90000, s')"
    "list_all (\<lambda>r. translate (mem s') 0x90000 r = Some (r - VKERN_START - r mod 4096)) peripheral_registers"
    "list_all (\<lambda>r. translate (mem s') 0x90000 r = None) core_registers"
    using make_kpagetable_registers [OF boot_frames boot_frames_low, of 16 "0x80000" "0x90000" 0 0]
    by (auto simp: page_aligned_def)
  with * show ?thesis unfolding list_all_iff by auto
qed

end
