(* ===== verification/Descriptors.thy ===== *)
theory Descriptors
  imports Kernel_Map
begin

text \<open>
  The kernel's page tables as the memory management unit reads them. \<^verbatim>\<open>vmem.c\<close> reads its own entries by
  their bit 10; the hardware looks at bits 0 and 1, and in a table of the first level accepts only
  the value \<open>11\<close>. The hardware is not code of the repository: it is the argument \<open>mmu\<close>, which gives the
  physical page of a virtual address under a table, and \<open>arm_level0\<close> is what the architecture
  says of the first level. \<open>arm_walk\<close> is a concrete unit that follows four levels of table and page
  descriptors.
\<close>

type_synonym mmu = "memory \<Rightarrow> u64 \<Rightarrow> u64 \<Rightarrow> u64 option"

definition arm_level0 :: "mmu \<Rightarrow> bool" where
  "arm_level0 mmu \<longleftrightarrow>
     (\<forall>m ttbr va. load64 m (slot ttbr (LVL_ADDR va 0)) AND 3 \<noteq> 3 \<longrightarrow> mmu m ttbr va = None)"

definition arm_entry :: "memory \<Rightarrow> u64 \<Rightarrow> u64 \<Rightarrow> u64 option" where
  "arm_entry m t i =
     (let e = load64 m (slot t i) in if e AND 3 = 3 then Some (e AND 0x0000FFFFFFFFF000) else None)"

definition arm_walk :: mmu where
  "arm_walk m ttbr va =
     Option.bind (Option.bind (Option.bind (arm_entry m ttbr (LVL_ADDR va 0))
       (\<lambda>t. arm_entry m t (LVL_ADDR va 1))) (\<lambda>t. arm_entry m t (LVL_ADDR va 2)))
       (\<lambda>t. arm_entry m t (LVL_ADDR va 3))"

section \<open>Lemmas\<close>

text \<open>No entry of the table at \<open>pt\<close> has bit 1.\<close>

definition no_tables :: "memory \<Rightarrow> u64 \<Rightarrow> bool" where
  "no_tables m pt \<longleftrightarrow> (\<forall>i<512. \<not> bit (load64 m (slot pt i)) 1)"

lemma new_entry_bit1: "new_entry i kind f = Some e \<Longrightarrow> \<not> bit e 1"
  by (auto simp: new_entry_def PMD_ENTRY_PGDPUD entry_bits split: if_splits)

lemma given_entry_bit1: "given_entry kind f = Some e \<Longrightarrow> \<not> bit e 1"
  by (auto simp: given_entry_def entry_bits split: if_splits)

lemma no_tables_store:
  assumes "no_tables m pt" "page_aligned pt" "page_aligned t" "j < 512" "\<not> bit e 1"
  shows "no_tables (store64 m (slot t j) e) pt"
proof (cases "t = pt")
  case True
  with assms show ?thesis by (simp add: no_tables_def load_slot_store_slot)
next
  case False
  then have "in_page pt x \<Longrightarrow> \<not> in_page t x" for x using assms(2,3) pages_disjoint by blast
  then have "load64 (store64 m (slot t j) e) (slot pt i) = load64 m (slot pt i)" if "i < 512" for i
    using that assms(4) unfolding slot_def [of t]
    by (intro load_slot_other_page) (auto intro!: store64_other_page slot_offset_le)
  with assms(1) show ?thesis by (simp add: no_tables_def)
qed

lemma no_tables_zero:
  assumes "no_tables m pt" "page_aligned pt" "page_aligned f"
  shows "no_tables (zero_page m f) pt"
proof (cases "f = pt")
  case False
  then have "load64 (zero_page m f) (slot pt i) = load64 m (slot pt i)" if "i < 512" for i
    using that assms(2,3) pages_disjoint by (intro load_slot_other_page) auto
  with assms(1) show ?thesis by (simp add: no_tables_def)
qed (simp add: no_tables_def load_slot_zero_page)

text \<open>What the walk keeps, whatever page it is asked to enter.\<close>

definition plain_root :: "'a kmem_scheme \<Rightarrow> u64 \<Rightarrow> bool" where
  "plain_root s pt \<longleftrightarrow> (\<exists>fs. pt_wf s pt fs) \<and> no_tables (mem s) pt"

lemma plain_root_aligned: "plain_root s pt \<Longrightarrow> page_aligned pt"
  using pt_wfD(3) [of s pt _ "[]" pt] by (auto simp: plain_root_def)

lemma plain_root_leaf:
  assumes "plain_root s pt" "walk (mem s) pt r0 = Some t" "is_path r0" "length r0 = 3" "j < 512" "\<not> bit e 1"
  shows "plain_root (s\<lparr>mem := store64 (mem s) (slot t j) e\<rparr>) pt"
proof -
  obtain fs where wf: "pt_wf s pt fs" "no_tables (mem s) pt" using assms(1) by (auto simp: plain_root_def)
  have "page_aligned t" using pt_wfD(3) [OF wf(1) _ _ assms(2)] assms(3,4) by simp
  with no_tables_store [OF wf(2) plain_root_aligned [OF assms(1)]] pt_wf_store_leaf [OF wf(1) assms(2-5), of e] assms(5,6)
  show ?thesis by (auto simp: plain_root_def)
qed

lemma plain_root_linked:
  assumes "plain_root s pt" "pt_wf s pt (f # fs)" "walk (mem s) pt r0 = Some t" "is_path r0" "length r0 \<le> 3"
    and "j < 512" "pt_wf (linked s f t j e) pt fs" "\<not> bit e 1"
  shows "plain_root (linked s f t j e) pt"
proof -
  have al: "page_aligned pt" "page_aligned t" "page_aligned f"
    using plain_root_aligned [OF assms(1)] pt_wfD(3) [OF assms(2) assms(4,5,3)] ka.avail_wf [OF pt_wfD(1) [OF assms(2)]]
    by simp_all
  have "no_tables (mem s) pt" using assms(1) by (simp add: plain_root_def)
  from no_tables_store [OF no_tables_zero [OF this al(1,3)] al(1,2) assms(6,8)] assms(7) show ?thesis
    by (auto simp: plain_root_def linked_def)
qed

text \<open>One level, by the cases of \<open>get_physical_page_step\<close>.\<close>

lemma step_plain_root_new:
  assumes "plain_root s pt" and t: "walk (mem s) pt (take i (va_path va)) = Some t" and i: "i \<le> 3" and "kind \<le> 2"
    and None: "entry (mem s) t (LVL_ADDR va i) = None" and pa: "\<not> (i = 3 \<and> pa \<noteq> 0)"
    and res: "get_physical_page_step i t va pa kind s = (r, s')"
  shows "plain_root s' pt \<and> (\<forall>t'. r = Inr t' \<longrightarrow> walk (mem s') pt (take (Suc i) (va_path va)) = Some t')"
proof -
  obtain fs where wf: "pt_wf s pt fs" using assms(1) by (auto simp: plain_root_def)
  show ?thesis
  proof (cases fs)
    case Nil
    then show ?thesis using res step_no_frame [OF None _ pa] pt_wfD(1) [OF wf] assms(1) by auto
  next
    case (Cons f fs')
    obtain e where e: "new_entry i kind f = Some e" "bit e 10" "GET_PHYSICAL_ADDR e = take_bit 36 f"
      by (rule new_entry_props [OF i assms(4), of f])
    note wf' = wf [unfolded Cons]
    have "GET_PHYSICAL_ADDR e = f" using e(3) pt_wfD(2) [OF wf', of f] by (simp add: take_bit_36_eq)
    then have s': "r = Inr f" "s' = linked s f t (LVL_ADDR va i) e"
      using res step_new_frame [OF None pt_wfD(1) [OF wf'] pa e(1)] by simp_all
    have len: "length (take i (va_path va)) \<le> 3" using i by simp
    note ln = link_fresh_frame [OF wf' t is_path_take len LVL_ADDR_less None e(2,3)]
    show ?thesis
      using plain_root_linked [OF assms(1) wf' t is_path_take len LVL_ADDR_less ln(1) new_entry_bit1 [OF e(1)]] ln(3) s' i
      by (simp add: take_va_path)
  qed
qed

lemma step_plain_root:
  assumes "plain_root s pt" and t: "walk (mem s) pt (take i (va_path va)) = Some t" and i: "i \<le> 3" and "kind \<le> 2"
    and res: "get_physical_page_step i t va pa kind s = (r, s')"
  shows "plain_root s' pt \<and> (\<forall>t'. r = Inr t' \<longrightarrow> walk (mem s') pt (take (Suc i) (va_path va)) = Some t')"
proof (cases "entry (mem s) t (LVL_ADDR va i)")
  case (Some t1)
  with res assms(1) t i show ?thesis by (auto simp: step_descend take_va_path walk_snoc)
next
  case None
  show ?thesis
  proof (cases "i = 3 \<and> pa \<noteq> 0")
    case True
    obtain e where e: "given_entry kind pa = Some e" by (rule given_entry_props [OF assms(4), of pa])
    have s': "r = Inl pa" "s' = s\<lparr>mem := store64 (mem s) (slot t (LVL_ADDR va i)) e\<rparr>"
      using res e True None by (auto simp: get_physical_page_step_def GET_PAGE_SET_entry Let_def)
    have "length (take i (va_path va)) = 3" using True by simp
    from plain_root_leaf [OF assms(1) t is_path_take this LVL_ADDR_less given_entry_bit1 [OF e]] show ?thesis
      by (simp add: s')
  qed (rule step_plain_root_new [OF assms(1-4) None _ res])
qed

lemma loop_plain_root:
  assumes "plain_root s pt" "walk (mem s) pt (take i (va_path va)) = Some t" "i \<le> 3" "kind \<le> 2"
    and "get_physical_page_loop i t va pa kind s = (r, s')"
  shows "plain_root s' pt"
  using assms
proof (induction i t va pa kind s rule: get_physical_page_loop.induct)
  case (1 i t va pa kind s)
  obtain x s1 where st: "get_physical_page_step i t va pa kind s = (x, s1)" by fastforce
  note keep = step_plain_root [OF 1(2-5) st]
  show ?case
  proof (cases x)
    case (Inl v)
    then show ?thesis using keep st 1(4,6) by (simp add: get_physical_page_loop.simps [of i])
  next
    case (Inr t')
    then have res: "get_physical_page_loop (i + 1) t' va pa kind s1 = (r, s')"
      using st 1(4,6) by (simp add: get_physical_page_loop.simps [of i])
    show ?thesis
    proof (cases "i = 3")
      case True
      then show ?thesis using res keep by (simp add: get_physical_page_loop.simps)
    next
      case False
      then have "walk (mem s1) pt (take (i + 1) (va_path va)) = Some t'" using keep Inr by simp
      then show ?thesis using 1(1) [OF 1(4) st [symmetric] Inr conjunct1 [OF keep] _ _ 1(5) res] False 1(4) by simp
    qed
  qed
qed

lemma map_page_plain_root:
  assumes "plain_root s pt" "kind \<le> 2" "map_page pt va pa kind s = (r, s')"
  shows "plain_root s' pt"
proof -
  obtain q where "get_physical_page_loop 0 pt va pa kind s = (q, s')"
    using assms(3) by (auto simp: map_page_def get_physical_page_def Let_def split: prod.splits)
  then show ?thesis using loop_plain_root [OF assms(1) _ _ assms(2), of 0] by simp
qed

lemma map_region_loop_plain_root:
  assumes "map_region_loop pt va_start va_end va pa kind s = Some (v, s')" "v \<noteq> Some (-1)" "plain_root s pt" "kind \<le> 2"
  shows "plain_root s' pt"
proof -
  let ?P = "\<lambda>pt va_start va_end va pa kind (s :: 'a kmem_scheme) (q :: int option \<times> 'a kmem_scheme).
    fst q \<noteq> Some (-1) \<longrightarrow> plain_root s pt \<longrightarrow> kind \<le> 2 \<longrightarrow> plain_root (snd q) pt"
  have "?P pt va_start va_end va pa kind s (v, s')"
  proof (rule map_region_loop.raw_induct [where P = ?P, OF _ assms(1)])
    fix f :: "u64 \<Rightarrow> u64 \<Rightarrow> u64 \<Rightarrow> u64 \<Rightarrow> u64 \<Rightarrow> u8 \<Rightarrow> 'a kmem_scheme \<Rightarrow> (int option \<times> 'a kmem_scheme) option"
      and pt va_start va_end va pa kind s q
    assume IH: "\<And>pt va_start va_end va pa kind s q. f pt va_start va_end va pa kind s = Some q \<Longrightarrow>
        fst q \<noteq> Some (-1) \<longrightarrow> plain_root s pt \<longrightarrow> kind \<le> 2 \<longrightarrow> plain_root (snd q) pt"
      and eq: "(if va < va_end
        then case map_page pt va pa kind s of (r, s1) \<Rightarrow>
               if r = -1 then (case unmap_region pt va_start va s1 of None \<Rightarrow> None | Some s2 \<Rightarrow> Some (Some (-1), s2))
               else f pt va_start va_end (va + PageSize) (pa + PageSize) kind s1
        else Some (None, s)) = Some q"
    obtain r1 s1 where m: "map_page pt va pa kind s = (r1, s1)" by fastforce
    show "fst q \<noteq> Some (-1) \<longrightarrow> plain_root s pt \<longrightarrow> kind \<le> 2 \<longrightarrow> plain_root (snd q) pt"
      using eq m IH [of pt va_start va_end "va + PageSize" "pa + PageSize" kind s1 q]
      by (auto dest: map_page_plain_root split: if_splits option.splits)
  qed
  then show ?thesis using assms(2-4) by simp
qed

lemma map_region_plain_root:
  assumes "map_region pt va pa sz kind s = Some (v, s')" "returned junk v \<noteq> -1" "plain_root s pt" "kind \<le> 2"
  shows "plain_root s' pt"
proof -
  have "v \<noteq> Some (-1)" using assms(2) by (auto simp: returned_def)
  with assms show ?thesis
    by (auto simp: map_region_def split: if_splits intro: map_region_loop_plain_root)
qed

lemma make_kpagetable_plain_root:
  assumes "frames s fs" "\<And>f. f \<in> set fs \<Longrightarrow> f < 0x1000000000"
    and "make_kpagetable kstart kend junk1 junk2 s = Some (kpt, s')" "kpt \<noteq> 0"
  shows "plain_root s' kpt"
proof (cases fs)
  case Nil
  then have "kalloc s = (None, s)" using ka.alloc_empty assms(1) by simp
  then show ?thesis using assms(3,4) by (simp add: make_kpagetable_def)
next
  case (Cons r fs')
  then obtain s1 where s1: "kalloc s = (Some r, s1)" "pt_wf s1 r fs'"
    using fresh_table [of s r fs'] assms(1,2) by auto
  have "no_tables (mem s1) r"
    using s1(1) kalloc_some(1) [OF assms(1) [unfolded Cons]] by (auto simp: no_tables_def load_slot_zero_page)
  with s1(2) have root: "plain_root s1 r" by (auto simp: plain_root_def)
  obtain v1 s2 where s2: "map_region r (VKERN_START + kstart) kstart (VKERN_START + kend - (VKERN_START + kstart)) 0 s1 = Some (v1, s2)"
    "returned junk1 v1 \<noteq> -1"
    using assms(3,4) s1(1) by (auto simp: make_kpagetable_def Let_def split: option.splits if_splits)
  obtain v2 where s3: "map_region r MMIO_BASE (MMIO_BASE - VKERN_START) (MMIO_END - MMIO_BASE) 1 s2 = Some (v2, s')"
    "returned junk2 v2 \<noteq> -1" "kpt = r"
    using assms(3,4) s1(1) s2 by (auto simp: make_kpagetable_def Let_def split: option.splits if_splits)
  have "plain_root s2 r" by (rule map_region_plain_root [OF s2 root]) simp
  from map_region_plain_root [OF s3(1,2) this] show ?thesis by (simp add: s3(3))
qed

lemma arm_walk_level0: "arm_level0 arm_walk"
  by (simp add: arm_level0_def arm_walk_def arm_entry_def Let_def)

lemma kpagetable_rejected:
  assumes "frames s fs" "\<And>f. f \<in> set fs \<Longrightarrow> f < 0x1000000000"
    and "make_kpagetable kstart kend junk1 junk2 s = Some (kpt, s')" "kpt \<noteq> 0"
    and "arm_level0 mmu"
  shows "mmu (mem s') kpt va = None"
proof -
  let ?e = "load64 (mem s') (slot kpt (LVL_ADDR va 0))"
  have "\<not> bit ?e 1"
    using make_kpagetable_plain_root [OF assms(1-4)] by (simp add: plain_root_def no_tables_def LVL_ADDR_less)
  moreover have "bit (3 :: u64) 1" by simp
  ultimately have "?e AND 3 \<noteq> 3" by (metis bit_and_iff)
  with assms(5) show ?thesis by (simp add: arm_level0_def)
qed

section \<open>Properties\<close>

text \<open>
  C10: the hardware accepts none of the kernel's tables. Whenever \<open>make_kpagetable\<close> succeeds, no entry of
  the root has both type bits set, so a memory management unit that follows the architecture at the
  first level translates no address at all: the first fetch after \<^verbatim>\<open>enable_vmem\<close> sets the registers
  faults. The software's own reading of the same tables is \<open>kernel_space\<close>.
\<close>

theorem hardware_rejects_kernel_tables:
  assumes "frames s fs" "\<And>f. f \<in> set fs \<Longrightarrow> f < 0x1000000000"
    and "make_kpagetable kstart kend junk1 junk2 s = Some (kpt, s')" "kpt \<noteq> 0"
    and "arm_level0 mmu"
  shows "mmu (mem s') kpt va = None"
  using assms by (rule kpagetable_rejected)

theorem hardware_rejects_kernel_tables_witness:
  "\<exists>s'. make_kpagetable 0x80000 0x90000 0 0 boot_kmem = Some (0x90000, s') \<and>
     arm_walk (mem s') 0x90000 (VKERN_START + 0x80000) = None"
proof -
  obtain s' where s': "make_kpagetable 0x80000 0x90000 0 0 boot_kmem = Some (0x90000, s')"
    by (rule make_kpagetable_space [OF boot_frames boot_frames_low, of 16 "0x80000" "0x90000" 0 0])
      (simp_all add: page_aligned_def)
  moreover have "arm_walk (mem s') 0x90000 (VKERN_START + 0x80000) = None"
    by (rule hardware_rejects_kernel_tables [OF boot_frames boot_frames_low s' _ arm_walk_level0]) simp_all
  ultimately show ?thesis by blast
qed

end
