(* ===== verification/Rootfs.thy ===== *)
theory Rootfs
  imports Strings "HOL-Library.Signed_Division"
begin

text \<open>
  The initial ram file system, \<^verbatim>\<open>kernel/rootfs.c\<close>: a parser for a cpio archive in memory that fills the
  global arrays \<^verbatim>\<open>files\<close> and \<^verbatim>\<open>inodes\<close>, and the lookups on them.

  Pointers into the arrays are indices. The union of \<^verbatim>\<open>children\<close> and \<^verbatim>\<open>ino\<close> in \<^verbatim>\<open>struct file\<close> is one
  pointer of type \<open>fs_ptr\<close> that knows what was stored last; reading it as the other member, or
  through \<^verbatim>\<open>NULL\<close>, is an \<open>fs_error\<close>, and so is a string access beyond an array. The scratch
  globals \<^verbatim>\<open>c_ino\<close>, \<^verbatim>\<open>c_mode\<close>, \<^verbatim>\<open>c_namesize\<close>, \<^verbatim>\<open>c_devminor\<close> and \<^verbatim>\<open>c_filesize\<close> are set and read
  within one iteration and are local here. \<^verbatim>\<open>int64_t\<close> values are 64-bit words read by \<open>sint\<close> where
  the code compares or divides them.
\<close>

section \<open>Data\<close>

datatype FILETYPE = INVALID | DIRECTORY | REGULAR

datatype fs_ptr = Null | ToFile nat | ToInode nat

datatype fs_error = OutOfObject | WrongMember | NullDeref

record inode =
  data :: u64
  inode_number :: u64
  device_number :: u64
  data_size :: u32

record fsfile =
  file_name :: "u8 list"
  file_parent :: "nat option"
  file_type :: FILETYPE
  next_file :: "nat option"
  children_or_ino :: fs_ptr

record ramfs =
  files :: "fsfile list"
  inodes :: "inode list"

text \<open>The local variables of \<^verbatim>\<open>init_ramfs\<close> that live across iterations.\<close>

record ramfs_loop = ramfs +
  findex :: u8
  iindex :: u8
  current_ino :: nat
  byte_stream :: u64

definition DIR_IDENT :: "u8 list" where "DIR_IDENT = [0x34, 0x31, 0x45, 0x44]"
definition FILE_IDENT :: "u8 list" where "FILE_IDENT = [0x38, 0x31, 0x41, 0x34]"
definition MAGIC :: "u8 list" where "MAGIC = [0x30, 0x37, 0x30, 0x37, 0x30, 0x31]"
definition END :: "u8 list" where
  "END = [0x54, 0x52, 0x41, 0x49, 0x4C, 0x45, 0x52, 0x21, 0x21, 0x21]"

definition FILENAME_SIZE :: nat where "FILENAME_SIZE = 16"

section \<open>Reading the archive\<close>

definition int_from_char :: "u8 \<Rightarrow> u64" where
  "int_from_char c =
     (if c = 0x30 then 0 else if c = 0x31 then 1 else if c = 0x32 then 2 else if c = 0x33 then 3
      else if c = 0x34 then 4 else if c = 0x35 then 5 else if c = 0x36 then 6
      else if c = 0x37 then 7 else if c = 0x38 then 8 else if c = 0x39 then 9
      else if c = 0x41 then 10 else if c = 0x42 then 11 else if c = 0x43 then 12
      else if c = 0x44 then 13 else if c = 0x45 then 14 else if c = 0x46 then 15 else -1)"

function int_from_string_loop :: "memory \<Rightarrow> int \<Rightarrow> int \<Rightarrow> u64 \<Rightarrow> u64 \<Rightarrow> u64" where
  "int_from_string_loop m i sz p tot =
     (if i < sz
      then (let current = int_from_char (m p)
            in if current = -1 then current
               else int_from_string_loop m (i + 1) sz (p + 1) (tot * 16 + current))
      else tot)"
  by pat_completeness auto
termination
  by (relation "measure (\<lambda>(m, i, sz, _). nat (sz - i))") auto

declare int_from_string_loop.simps [simp del]

definition int_from_string :: "memory \<Rightarrow> u64 \<Rightarrow> int \<Rightarrow> u64" where
  "int_from_string m p sz =
     (if sz = 0 then 0
      else (let tot = int_from_char (m p)
            in if tot = -1 then -1 else int_from_string_loop m 1 sz (p + 1) tot))"

text \<open>
  The comparison loops: the index at which the bytes from \<open>p\<close> on first differ from the
  constant array, its length if they do not.
\<close>

function match_upto :: "memory \<Rightarrow> u64 \<Rightarrow> u8 list \<Rightarrow> nat \<Rightarrow> nat" where
  "match_upto m p xs i =
     (if i < length xs then (if m (p + of_nat i) \<noteq> xs ! i then i else match_upto m p xs (i + 1)) else i)"
  by pat_completeness auto
termination
  by (relation "measure (\<lambda>(_, _, xs, i). length xs - i)") auto

declare match_upto.simps [simp del]

definition get_file_type :: "memory \<Rightarrow> u64 \<Rightarrow> FILETYPE" where
  "get_file_type m arr =
     (if match_upto m arr FILE_IDENT 0 = 4 then REGULAR
      else if match_upto m arr DIR_IDENT 0 = 4 then DIRECTORY
      else INVALID)"

definition check_magic :: "memory \<Rightarrow> u64 \<Rightarrow> int" where
  "check_magic m p = (if match_upto m p MAGIC 0 < 6 then -1 else 0)"

definition check_end_archive :: "memory \<Rightarrow> u64 \<Rightarrow> int" where
  "check_end_archive m p = (if match_upto m p END 0 < 10 then 0 else 1)"

section \<open>Looking up files\<close>

function search_file_loop :: "nat \<Rightarrow> cstr \<Rightarrow> 'a ramfs_scheme \<Rightarrow> fs_error + nat option" where
  "search_file_loop i name fs =
     (if i < ROOTFS_FILE_COUNT
      then (case strequal (arr_str (file_name (files fs ! i))) name of
              None \<Rightarrow> Inl OutOfObject
            | Some r \<Rightarrow> if r \<noteq> 0 then Inr (Some i) else search_file_loop (i + 1) name fs)
      else Inr None)"
  by pat_completeness auto
termination
  by (relation "measure (\<lambda>(i, _). ROOTFS_FILE_COUNT - i)") auto

declare search_file_loop.simps [simp del]

definition search_file :: "cstr \<Rightarrow> 'a ramfs_scheme \<Rightarrow> fs_error + nat option" where
  "search_file name fs = search_file_loop 0 name fs"

definition read :: "cstr \<Rightarrow> u32 \<Rightarrow> 'a ramfs_scheme \<Rightarrow> fs_error + int" where
  "read filename offset fs =
     (case search_file filename fs of
        Inl e \<Rightarrow> Inl e
      | Inr None \<Rightarrow> Inr (-1)
      | Inr (Some f) \<Rightarrow>
          (case children_or_ino (files fs ! f) of
             Null \<Rightarrow> Inl NullDeref
           | ToFile _ \<Rightarrow> Inl WrongMember
           | ToInode k \<Rightarrow> if offset > data_size (inodes fs ! k) then Inr (-1) else Inr 0))"

text \<open>
  \<^verbatim>\<open>ls\<close> prints the names of the file found and of all files after it in its list; the model
  returns the names it passes to \<^verbatim>\<open>uart_puts\<close>.
\<close>

partial_function (option) ls_loop :: "nat option \<Rightarrow> u8 list list \<Rightarrow> 'a ramfs_scheme \<Rightarrow> u8 list list option" where
  "ls_loop f out fs =
     (case f of
        None \<Rightarrow> Some out
      | Some i \<Rightarrow> ls_loop (next_file (files fs ! i)) (out @ [file_name (files fs ! i)]) fs)"

declare ls_loop.simps [code]

definition ls :: "cstr \<Rightarrow> 'a ramfs_scheme \<Rightarrow> (fs_error + int \<times> u8 list list) option" where
  "ls filepath fs =
     (case search_file filepath fs of
        Inl e \<Rightarrow> Some (Inl e)
      | Inr None \<Rightarrow> Some (Inr (-1, []))
      | Inr (Some i) \<Rightarrow>
          (case ls_loop (Some i) [] fs of None \<Rightarrow> None | Some out \<Rightarrow> Some (Inr (0, out))))"

section \<open>Filling the file system\<close>

definition upd_file :: "nat \<Rightarrow> (fsfile \<Rightarrow> fsfile) \<Rightarrow> 'a ramfs_scheme \<Rightarrow> 'a ramfs_scheme" where
  "upd_file i f fs = fs\<lparr>files := (files fs)[i := f (files fs ! i)]\<rparr>"

definition upd_inode :: "nat \<Rightarrow> (inode \<Rightarrow> inode) \<Rightarrow> 'a ramfs_scheme \<Rightarrow> 'a ramfs_scheme" where
  "upd_inode i f fs = fs\<lparr>inodes := (inodes fs)[i := f (inodes fs ! i)]\<rparr>"

text \<open>
  The name loop (lines 274--304): \<open>fname\<close> is \<^verbatim>\<open>current_file->file_name\<close>. At a slash the component read so
  far becomes the parent's name; the index wraps after 16 characters.
\<close>

partial_function (option) parse_name ::
  "memory \<Rightarrow> u8 list \<Rightarrow> u8 list \<Rightarrow> nat \<Rightarrow> u64 \<Rightarrow> (u8 list \<times> u8 list) option" where
  "parse_name m fname parent_filename idx p =
     (if idx < FILENAME_SIZE
      then (if m p = 0x2F
            then parse_name m (replicate FILENAME_SIZE 0)
                   (map (\<lambda>j. if j < idx then fname ! j else 0) [0..<FILENAME_SIZE]) 0 (p + 1)
            else if m p = 0
            then Some (fname[idx := m p], parent_filename)
            else parse_name m (fname[idx := m p]) parent_filename
                   ((idx + 1) mod ROOTFS_MAX_FILENAME_SIZE) (p + 1))
      else Some (fname, parent_filename))"

declare parse_name.simps [code]

text \<open>The type switch (lines 243--272); \<open>None\<close> is its \<^verbatim>\<open>return -1\<close>.\<close>

definition find_inode :: "u64 \<Rightarrow> u64 \<Rightarrow> 'a ramfs_scheme \<Rightarrow> nat option" where
  "find_inode device_nr inode_nr fs =
     find (\<lambda>i. device_number (inodes fs ! i) = device_nr \<and> inode_number (inodes fs ! i) = inode_nr)
       [0..<ROOTFS_INODE_COUNT]"

definition set_type :: "memory \<Rightarrow> FILETYPE \<Rightarrow> u64 \<Rightarrow> u64 \<Rightarrow> u64 \<Rightarrow> ramfs_loop \<Rightarrow> ramfs_loop option" where
  "set_type m filetype c_ino c_devminor file_size s =
     (let cur = unat (findex s)
      in case filetype of
           DIRECTORY \<Rightarrow> Some (upd_file cur (\<lambda>f. f\<lparr>file_type := DIRECTORY, children_or_ino := Null\<rparr>) s)
         | REGULAR \<Rightarrow>
             (let device_nr = load64 m c_devminor;
                  inode_nr = load64 m c_ino;
                  s = (if file_size = 0
                       then (case find_inode device_nr inode_nr s of
                               Some i \<Rightarrow> upd_file cur (\<lambda>f. f\<lparr>children_or_ino := ToInode i\<rparr>) s
                             | None \<Rightarrow> s)
                       else (let s = upd_inode (current_ino s)
                                       (\<lambda>n. n\<lparr>device_number := device_nr, inode_number := inode_nr\<rparr>) s;
                                 s = s\<lparr>iindex := iindex s + 1\<rparr>
                             in s\<lparr>current_ino := unat (iindex s)\<rparr>))
              in Some (upd_file cur (\<lambda>f. f\<lparr>file_type := REGULAR\<rparr>) s))
         | INVALID \<Rightarrow> None)"

text \<open>Appending a file to its parent's list of children (lines 306--320).\<close>

partial_function (option) last_sibling :: "nat \<Rightarrow> 'a ramfs_scheme \<Rightarrow> nat option" where
  "last_sibling k fs =
     (case next_file (files fs ! k) of None \<Rightarrow> Some k | Some k' \<Rightarrow> last_sibling k' fs)"

declare last_sibling.simps [code]

definition link_parent :: "u8 list \<Rightarrow> ramfs_loop \<Rightarrow> (fs_error + ramfs_loop) option" where
  "link_parent parent_filename s =
     (let cur = unat (findex s);
          s = upd_file cur (\<lambda>f. f\<lparr>next_file := None\<rparr>) s
      in if parent_filename ! 0 = 0 then Some (Inr s)
         else case search_file (arr_str parent_filename) s of
                Inl e \<Rightarrow> Some (Inl e)
              | Inr r \<Rightarrow>
                  (let s = upd_file cur (\<lambda>f. f\<lparr>file_parent := r\<rparr>) s
                   in case r of
                        None \<Rightarrow> Some (Inr s)
                      | Some p \<Rightarrow>
                          (case children_or_ino (files s ! p) of
                             Null \<Rightarrow> Some (Inr (upd_file p (\<lambda>f. f\<lparr>children_or_ino := ToFile cur\<rparr>) s))
                           | ToInode _ \<Rightarrow> Some (Inl WrongMember)
                           | ToFile k \<Rightarrow>
                               (case last_sibling k s of
                                  None \<Rightarrow> None
                                | Some k \<Rightarrow>
                                    Some (Inr (upd_file k (\<lambda>f. f\<lparr>next_file := Some cur\<rparr>) s))))))"

text \<open>The inode of a regular file with contents (lines 328--333).\<close>

definition set_data :: "FILETYPE \<Rightarrow> u64 \<Rightarrow> u64 \<Rightarrow> ramfs_loop \<Rightarrow> ramfs_loop" where
  "set_data filetype file_size p s =
     (if sint file_size > 0 \<and> filetype = REGULAR
      then (let s = upd_inode (current_ino s) (\<lambda>n. n\<lparr>data := p\<rparr>) s;
                s = upd_file (unat (findex s)) (\<lambda>f. f\<lparr>children_or_ino := ToInode (current_ino s)\<rparr>) s;
                s = s\<lparr>current_ino := unat (iindex s)\<rparr>;
                s = s\<lparr>iindex := iindex s + 1\<rparr>
            in upd_inode (current_ino s) (\<lambda>n. n\<lparr>data_size := ucast file_size\<rparr>) s)
      else s)"

definition padded :: "u64 \<Rightarrow> u64" where
  "padded n = word_of_int (((sint n + 3) sdiv 4) * 4)"

text \<open>
  One iteration. \<open>Inr (Inl r)\<close> leaves the function with \<open>r\<close>: the return value, the value stored
  through \<^verbatim>\<open>bytestream_end\<close> if any, and the arrays; \<open>Inr (Inr s)\<close> goes on.
\<close>

type_synonym init_result = "int \<times> u64 option \<times> ramfs"

definition init_ramfs_step ::
  "memory \<Rightarrow> ramfs_loop \<Rightarrow> (fs_error + (init_result + ramfs_loop)) option" where
  "init_ramfs_step m s =
     (let file_start = byte_stream s
      in if check_magic m file_start = -1 then Some (Inr (Inl (-1, None, ramfs.truncate s)))
         else
           (let c_ino = file_start + 6;
                c_mode = c_ino + 8;
                c_filesize = c_mode + 8 + 32;
                c_devminor = c_filesize + 8 + 8;
                c_namesize = c_devminor + 8 + 16;
                name = c_namesize + 8 + 8;
                file_size = int_from_string m c_filesize 8;
                filename_size = int_from_string m c_namesize 8
            in if check_end_archive m name \<noteq> 0 then Some (Inr (Inl (0, Some name, ramfs.truncate s)))
               else
                 (let filetype = get_file_type m (c_mode + 4)
                  in case set_type m filetype c_ino c_devminor file_size s of
                       None \<Rightarrow> Some (Inr (Inl (-1, None, ramfs.truncate
                                 (upd_file (unat (findex s)) (\<lambda>f. f\<lparr>file_type := INVALID\<rparr>) s))))
                     | Some s \<Rightarrow>
                         (case parse_name m (replicate FILENAME_SIZE 0) (replicate FILENAME_SIZE 0) 0 name of
                            None \<Rightarrow> None
                          | Some (fname, parent_filename) \<Rightarrow>
                              (let s = upd_file (unat (findex s)) (\<lambda>f. f\<lparr>file_name := fname\<rparr>) s
                               in case link_parent parent_filename s of
                                    None \<Rightarrow> None
                                  | Some (Inl e) \<Rightarrow> Some (Inl e)
                                  | Some (Inr s) \<Rightarrow>
                                      (let p = padded (6 + 13 * 8 + filename_size) + file_start;
                                           s = set_data filetype file_size p s;
                                           p = p + padded file_size
                                       in Some (Inr (Inr (s\<lparr>byte_stream := p, findex := findex s + 1\<rparr>)))))))))"

partial_function (option) init_ramfs_loop :: "memory \<Rightarrow> ramfs_loop \<Rightarrow> (fs_error + init_result) option" where
  "init_ramfs_loop m s =
     (case init_ramfs_step m s of
        None \<Rightarrow> None
      | Some (Inl e) \<Rightarrow> Some (Inl e)
      | Some (Inr (Inl r)) \<Rightarrow> Some (Inr r)
      | Some (Inr (Inr s)) \<Rightarrow> init_ramfs_loop m s)"

declare init_ramfs_loop.simps [code]

definition init_ramfs :: "memory \<Rightarrow> ramfs \<Rightarrow> (fs_error + init_result) option" where
  "init_ramfs m fs =
     init_ramfs_loop m (ramfs.extend fs
       (ramfs_loop.fields 0 0 0 RAMFS_START))"

section \<open>Specification of archives\<close>

text \<open>
  \<open>bytes_at m p xs\<close>: the bytes \<open>xs\<close> are in memory from \<open>p\<close> on. An entry is a directory or a regular file with
  a plain name (no slash, at most 15 characters); \<open>entry_at m a e\<close> says that its header and name
  are at \<open>a\<close>. \<open>archive m a es\<close>: from \<open>a\<close> on the memory holds the entries \<open>es\<close>, ended by something at
  which \<open>init_ramfs\<close> stops: \<open>stop\<close> is what it then returns.
\<close>

definition bytes_at :: "memory \<Rightarrow> u64 \<Rightarrow> u8 list \<Rightarrow> bool" where
  "bytes_at m p xs \<longleftrightarrow> (\<forall>i<length xs. m (p + of_nat i) = xs ! i)"

definition hex_char :: "nat \<Rightarrow> u8" where
  "hex_char d = (if d < 10 then of_nat (0x30 + d) else of_nat (0x37 + d))"

primrec hex_digits :: "nat \<Rightarrow> nat \<Rightarrow> u8 list" where
  "hex_digits 0 n = []"
| "hex_digits (Suc k) n = hex_digits k (n div 16) @ [hex_char (n mod 16)]"

definition pad_name :: "u8 list \<Rightarrow> u8 list" where
  "pad_name xs = xs @ replicate (FILENAME_SIZE - length xs) 0"

definition plain :: "u8 list \<Rightarrow> bool" where
  "plain xs \<longleftrightarrow> length xs < FILENAME_SIZE \<and> 0 \<notin> set xs \<and> 0x2F \<notin> set xs"

record entry =
  ename :: "u8 list"
  etype :: FILETYPE
  esize :: nat

definition entry_at :: "memory \<Rightarrow> u64 \<Rightarrow> entry \<Rightarrow> bool" where
  "entry_at m a e \<longleftrightarrow>
     bytes_at m a MAGIC \<and> get_file_type m (a + 18) = etype e \<and> etype e \<noteq> INVALID \<and>
     esize e < 2 ^ 32 \<and> bytes_at m (a + 54) (hex_digits 8 (esize e)) \<and>
     bytes_at m (a + 94) (hex_digits 8 (length (ename e) + 1)) \<and>
     plain (ename e) \<and> bytes_at m (a + 110) (ename e @ [0]) \<and> \<not> bytes_at m (a + 110) END"

definition entry_data :: "u64 \<Rightarrow> entry \<Rightarrow> u64" where
  "entry_data a e = a + of_nat ((110 + length (ename e) + 1 + 3) div 4 * 4)"

definition entry_end :: "u64 \<Rightarrow> entry \<Rightarrow> u64" where
  "entry_end a e = entry_data a e + of_nat ((esize e + 3) div 4 * 4)"

definition stop :: "memory \<Rightarrow> u64 \<Rightarrow> (int \<times> u64 option) option" where
  "stop m a =
     (if \<not> bytes_at m a MAGIC then Some (-1, None)
      else if bytes_at m (a + 110) END then Some (0, Some (a + 110)) else None)"

fun archive :: "memory \<Rightarrow> u64 \<Rightarrow> entry list \<Rightarrow> int \<times> u64 option \<Rightarrow> bool" where
  "archive m a [] r \<longleftrightarrow> stop m a = Some r"
| "archive m a (e # es) r \<longleftrightarrow> entry_at m a e \<and> archive m (entry_end a e) es r"

fun entry_addr :: "u64 \<Rightarrow> entry list \<Rightarrow> nat \<Rightarrow> u64" where
  "entry_addr a (e # es) (Suc i) = entry_addr (entry_end a e) es i"
| "entry_addr a es i = a"

definition has_data :: "entry \<Rightarrow> bool" where
  "has_data e \<longleftrightarrow> etype e = REGULAR \<and> 0 < esize e"

text \<open>Slot \<open>k\<close> holds entry \<open>e\<close>, whose header is at \<open>a\<close>.\<close>

definition loaded :: "'a ramfs_scheme \<Rightarrow> nat \<Rightarrow> u64 \<Rightarrow> entry \<Rightarrow> bool" where
  "loaded fs k a e \<longleftrightarrow>
     file_name (files fs ! k) = pad_name (ename e) \<and> file_type (files fs ! k) = etype e \<and>
     next_file (files fs ! k) = None \<and>
     (has_data e \<longrightarrow> (\<exists>n. children_or_ino (files fs ! k) = ToInode n \<and>
        data (inodes fs ! n) = entry_data a e \<and> data_size (inodes fs ! n) = of_nat (esize e)))"

section \<open>Lemmas on reading\<close>

lemma match_upto_eq:
  "i \<le> length xs \<Longrightarrow> match_upto m p xs i < length xs \<longleftrightarrow>
     (\<exists>j. i \<le> j \<and> j < length xs \<and> m (p + of_nat j) \<noteq> xs ! j)"
proof (induction m p xs i rule: match_upto.induct)
  case (1 m p xs i)
  show ?case
  proof (cases "i < length xs \<and> m (p + of_nat i) = xs ! i")
    case True
    with 1 have "match_upto m p xs (i + 1) < length xs \<longleftrightarrow>
        (\<exists>j. i + 1 \<le> j \<and> j < length xs \<and> m (p + of_nat j) \<noteq> xs ! j)" by auto
    moreover have "(\<exists>j. i + 1 \<le> j \<and> j < length xs \<and> m (p + of_nat j) \<noteq> xs ! j) \<longleftrightarrow>
        (\<exists>j. i \<le> j \<and> j < length xs \<and> m (p + of_nat j) \<noteq> xs ! j)"
    proof (rule iffI; elim exE conjE)
      fix j assume "i + 1 \<le> j" "j < length xs" "m (p + of_nat j) \<noteq> xs ! j"
      then show "\<exists>j. i \<le> j \<and> j < length xs \<and> m (p + of_nat j) \<noteq> xs ! j" by (intro exI [of _ j]) simp
    next
      fix j assume j: "i \<le> j" "j < length xs" "m (p + of_nat j) \<noteq> xs ! j"
      with True have "i \<noteq> j" by auto
      with j show "\<exists>j. i + 1 \<le> j \<and> j < length xs \<and> m (p + of_nat j) \<noteq> xs ! j"
        by (intro exI [of _ j]) simp
    qed
    ultimately show ?thesis using True by (subst match_upto.simps) simp
  next
    case False
    then show ?thesis using "1.prems" by (subst match_upto.simps) auto
  qed
qed

lemma match_upto_le: "i \<le> length xs \<Longrightarrow> match_upto m p xs i \<le> length xs"
proof (induction m p xs i rule: match_upto.induct)
  case (1 m p xs i)
  then show ?case by (subst match_upto.simps) auto
qed

lemma match_upto_less: "match_upto m p xs 0 < length xs \<longleftrightarrow> \<not> bytes_at m p xs"
  by (auto simp: match_upto_eq bytes_at_def)

lemma ident_lengths [simp]:
  "length MAGIC = 6" "length END = 10" "length FILE_IDENT = 4" "length DIR_IDENT = 4"
  by (simp_all add: MAGIC_def END_def FILE_IDENT_def DIR_IDENT_def)

lemma check_magic_eq: "check_magic m p = (if bytes_at m p MAGIC then 0 else -1)"
  using match_upto_less [of m p MAGIC] by (simp add: check_magic_def)

lemma check_end_archive_eq: "check_end_archive m p = (if bytes_at m p END then 1 else 0)"
  using match_upto_less [of m p END] by (simp add: check_end_archive_def)

lemma get_file_type_eq:
  "get_file_type m p =
     (if bytes_at m p FILE_IDENT then REGULAR else if bytes_at m p DIR_IDENT then DIRECTORY else INVALID)"
proof -
  have "match_upto m p xs 0 = length xs \<longleftrightarrow> bytes_at m p xs" for xs
    using match_upto_less [of m p xs] match_upto_le [of 0 xs m p] by linarith
  from this [of FILE_IDENT] this [of DIR_IDENT] show ?thesis
    by (simp add: get_file_type_def)
qed

lemma int_from_char_hex: "d < 16 \<Longrightarrow> int_from_char (hex_char d) = of_nat d"
proof -
  have "\<forall>d\<in>set [0..<16]. int_from_char (hex_char d) = of_nat d"
    by (simp add: upt_rec hex_char_def int_from_char_def)
  then show "d < 16 \<Longrightarrow> int_from_char (hex_char d) = of_nat d" by simp
qed

lemma length_hex_digits [simp]: "length (hex_digits k n) = k"
  by (induction k arbitrary: n) simp_all

lemma bytes_at_append:
  "bytes_at m p (xs @ ys) \<longleftrightarrow> bytes_at m p xs \<and> bytes_at m (p + of_nat (length xs)) ys"
proof -
  have "(\<forall>i<length xs + length ys. m (p + of_nat i) = (xs @ ys) ! i) \<longleftrightarrow>
      (\<forall>i<length xs. m (p + of_nat i) = xs ! i) \<and>
      (\<forall>i<length ys. m (p + of_nat (length xs) + of_nat i) = ys ! i)" (is "?l \<longleftrightarrow> ?r")
  proof (intro iffI conjI allI impI)
    fix i assume ?l "i < length xs"
    then show "m (p + of_nat i) = xs ! i" by (auto simp: nth_append dest: spec [of _ i])
  next
    fix i assume ?l "i < length ys"
    then show "m (p + of_nat (length xs) + of_nat i) = ys ! i"
      by (auto simp: nth_append add.assoc dest: spec [of _ "length xs + i"])
  next
    fix i assume r: ?r and i: "i < length xs + length ys"
    then show "m (p + of_nat i) = (xs @ ys) ! i"
    proof (cases "i < length xs")
      case False
      then obtain j where "i = length xs + j" using le_Suc_ex not_less by blast
      with r i show ?thesis by (simp add: nth_append add.assoc)
    qed (simp add: nth_append)
  qed
  then show ?thesis by (simp add: bytes_at_def)
qed

lemma bytes_at_Cons: "bytes_at m p (x # xs) \<longleftrightarrow> m p = x \<and> bytes_at m (p + 1) xs"
  using bytes_at_append [of m p "[x]" xs] by (simp add: bytes_at_def)

lemma bytes_at_Nil [simp]: "bytes_at m p []"
  by (simp add: bytes_at_def)

text \<open>The digit loop as a fold over the digits.\<close>

primrec hex_value :: "u64 \<Rightarrow> u8 list \<Rightarrow> u64" where
  "hex_value acc [] = acc"
| "hex_value acc (c # cs) =
     (if int_from_char c = -1 then -1 else hex_value (acc * 16 + int_from_char c) cs)"

lemma int_from_string_loop_value:
  "bytes_at m p cs \<Longrightarrow> int_from_string_loop m (sz - int (length cs)) sz p tot = hex_value tot cs"
proof (induction cs arbitrary: p tot)
  case (Cons c cs)
  then have "m p = c" "bytes_at m (p + 1) cs" by (simp_all add: bytes_at_Cons)
  with Cons.IH [of "p + 1"] show ?case
    by (subst int_from_string_loop.simps) (simp add: Let_def)
qed (simp add: int_from_string_loop.simps)

lemma int_from_string_value:
  assumes "bytes_at m p cs" "cs \<noteq> []"
  shows "int_from_string m p (int (length cs)) = hex_value 0 cs"
proof -
  obtain c cs' where cs: "cs = c # cs'" using assms(2) by (cases cs) auto
  with assms(1) have "m p = c" "bytes_at m (p + 1) cs'" by (simp_all add: bytes_at_Cons)
  with int_from_string_loop_value [of m "p + 1" cs' "int (length cs)"] cs show ?thesis
    by (simp add: int_from_string_def Let_def)
qed

lemma hex_value_append:
  assumes "\<And>c. c \<in> set xs \<Longrightarrow> int_from_char c \<noteq> -1"
  shows "hex_value acc (xs @ ys) = hex_value (hex_value acc xs) ys"
  using assms by (induction xs arbitrary: acc) auto

lemma hex_digits_chars: "c \<in> set (hex_digits k n) \<Longrightarrow> int_from_char c \<noteq> -1"
proof (induction k arbitrary: n)
  case (Suc k)
  have "(of_nat (n mod 16) :: u64) \<noteq> -1"
  proof
    assume "(of_nat (n mod 16) :: u64) = -1"
    then have "unat (of_nat (n mod 16) :: u64) = unat (-1 :: u64)" by simp
    then have "n mod 16 = 18446744073709551615"
      by (simp add: unat_of_nat take_bit_nat_eq_self unsigned_minus_1_eq_mask mask_eq_exp_minus_1)
    then show False using mod_less_divisor [of 16 n] by simp
  qed
  with Suc show ?case by (auto simp: int_from_char_hex)
qed simp

lemma hex_value_digits: "hex_value acc (hex_digits k n) = acc * 16 ^ k + of_nat (n mod 16 ^ k)"
proof (induction k arbitrary: acc n)
  case (Suc k)
  have "n mod 16 ^ Suc k = n div 16 mod 16 ^ k * 16 + n mod 16"
    by (metis Groups.add_ac(2) Groups.mult_ac(2) mod_mult2_eq power_Suc)
  with Suc hex_digits_chars [of "hex_char (n mod 16)" "Suc k" n] show ?case
    by (subst hex_digits.simps, subst hex_value_append) (auto simp: hex_digits_chars int_from_char_hex algebra_simps)
qed simp

lemma int_from_string_hex:
  assumes "bytes_at m p (hex_digits 8 n)" "n < 2 ^ 32"
  shows "int_from_string m p 8 = of_nat n"
proof -
  have "int_from_string m p 8 = hex_value 0 (hex_digits 8 n)"
    using int_from_string_value [OF assms(1)] by (metis length_hex_digits list.size(3) of_nat_numeral zero_neq_numeral)
  with assms(2) show ?thesis by (simp add: hex_value_digits)
qed

section \<open>Lemmas on names\<close>

lemma pad_name_Nil: "pad_name [] = replicate FILENAME_SIZE 0"
  by (simp add: pad_name_def)

lemma pad_name_snoc:
  assumes "length ys < FILENAME_SIZE"
  shows "(pad_name ys)[length ys := x] = pad_name (ys @ [x])"
proof -
  obtain n where n: "FILENAME_SIZE - length ys = Suc n" using assms by (metis Suc_diff_Suc)
  then have "FILENAME_SIZE - length (ys @ [x]) = n" by simp
  with n show ?thesis by (simp add: pad_name_def list_update_append)
qed

lemma pad_name_end: "length ys < FILENAME_SIZE \<Longrightarrow> (pad_name ys)[length ys := 0] = pad_name ys"
  by (simp add: pad_name_def list_update_append list_update_same_conv)

lemma pad_name_map:
  assumes "length ys \<le> FILENAME_SIZE"
  shows "map (\<lambda>j. if j < length ys then pad_name ys ! j else 0) [0..<FILENAME_SIZE] = pad_name ys"
  using assms by (intro nth_equalityI) (auto simp: pad_name_def nth_append)

lemma parse_name_chars:
  assumes "length ys + length xs < FILENAME_SIZE" "0 \<notin> set xs" "0x2F \<notin> set xs" "bytes_at m p xs"
  shows "parse_name m (pad_name ys) par (length ys) p =
    parse_name m (pad_name (ys @ xs)) par (length (ys @ xs)) (p + of_nat (length xs))"
  using assms
proof (induction xs arbitrary: ys p)
  case (Cons x xs)
  then have x: "m p = x" "x \<noteq> 0" "x \<noteq> 0x2F" "bytes_at m (p + 1) xs" by (auto simp: bytes_at_Cons)
  have "(length ys + 1) mod ROOTFS_MAX_FILENAME_SIZE = length (ys @ [x])"
    using Cons.prems by (simp add: FILENAME_SIZE_def ROOTFS_MAX_FILENAME_SIZE_def)
  then have "parse_name m (pad_name ys) par (length ys) p =
      parse_name m (pad_name (ys @ [x])) par (length (ys @ [x])) (p + 1)"
    using Cons.prems x by (subst parse_name.simps) (simp add: pad_name_snoc)
  also have "\<dots> = parse_name m (pad_name ((ys @ [x]) @ xs)) par (length ((ys @ [x]) @ xs)) (p + 1 + of_nat (length xs))"
    by (rule Cons.IH) (use Cons.prems x in auto)
  finally show ?case by (simp add: add.assoc)
qed simp

lemma parse_name_plain:
  assumes "plain xs" "bytes_at m p (xs @ [0])"
  shows "parse_name m (replicate FILENAME_SIZE 0) par 0 p = Some (pad_name xs, par)"
proof -
  have "bytes_at m p xs" "m (p + of_nat (length xs)) = 0"
    using assms(2) by (simp_all add: bytes_at_append bytes_at_Cons)
  with parse_name_chars [of "[]" xs m p par] assms(1) show ?thesis
    by (simp add: pad_name_Nil plain_def) (subst parse_name.simps, simp add: pad_name_end)
qed

lemma parse_name_slash:
  assumes "plain d" "bytes_at m p (d @ [0x2F])"
  shows "parse_name m (replicate FILENAME_SIZE 0) par 0 p =
    parse_name m (replicate FILENAME_SIZE 0) (pad_name d) 0 (p + of_nat (length d) + 1)"
proof -
  have "bytes_at m p d" "m (p + of_nat (length d)) = 0x2F"
    using assms(2) by (simp_all add: bytes_at_append bytes_at_Cons)
  with parse_name_chars [of "[]" d m p par] assms(1) pad_name_map [of d] show ?thesis
    by (simp add: pad_name_Nil plain_def) (subst parse_name.simps, simp)
qed

lemma length_pad_name [simp]: "length xs \<le> FILENAME_SIZE \<Longrightarrow> length (pad_name xs) = FILENAME_SIZE"
  by (simp add: pad_name_def)

section \<open>Lemmas on one entry\<close>

lemma padded_of_nat: "n < 2 ^ 62 \<Longrightarrow> padded (of_nat n) = of_nat ((n + 3) div 4 * 4)"
proof -
  assume n: "n < 2 ^ 62"
  then have "sint (of_nat n :: u64) = int n"
    by (simp add: signed_of_nat signed_take_bit_int_eq_self)
  moreover have "(int n + 3) sdiv 4 = int ((n + 3) div 4)"
    by (simp add: signed_divide_int_def zdiv_int)
  moreover have "int ((n + 3) div 4) * 4 = int ((n + 3) div 4 * 4)" by simp
  ultimately show ?thesis unfolding padded_def by (simp only: of_int_of_nat_eq)
qed

lemma upd_file_simps [simp]:
  "inodes (upd_file k f s) = inodes s" "length (files (upd_file k f s)) = length (files s)"
  "k < length (files s) \<Longrightarrow> upd_file k f (upd_file k g s) = upd_file k (\<lambda>x. f (g x)) s"
  by (simp_all add: upd_file_def)

lemma upd_inode_simps [simp]:
  "files (upd_inode k f s) = files s" "length (inodes (upd_inode k f s)) = length (inodes s)"
  "k < length (inodes s) \<Longrightarrow> upd_inode k f (upd_inode k g s) = upd_inode k (\<lambda>x. f (g x)) s"
  by (simp_all add: upd_inode_def)

lemma upd_file_loop [simp]:
  "findex (upd_file k f s) = findex s" "iindex (upd_file k f s) = iindex s"
  "current_ino (upd_file k f s) = current_ino s" "byte_stream (upd_file k f s) = byte_stream s"
  "findex (upd_inode k g s) = findex s" "iindex (upd_inode k g s) = iindex s"
  "current_ino (upd_inode k g s) = current_ino s" "byte_stream (upd_inode k g s) = byte_stream s"
  by (simp_all add: upd_file_def upd_inode_def)

lemma sint_of_nat: "n < 2 ^ 32 \<Longrightarrow> sint (of_nat n :: u64) = int n"
  by (simp add: signed_of_nat signed_take_bit_int_eq_self)

end
