(* ===== verification/Rootfs_Load.thy ===== *)
theory Rootfs_Load
  imports Rootfs
begin

text \<open>
  Loading an archive: what one iteration of \<^verbatim>\<open>init_ramfs\<close> does to the arrays for a plain entry, and by
  induction over the entries what the whole loop does; then the properties of
  \<^verbatim>\<open>kernel/rootfs.c\<close>.
\<close>

section \<open>One iteration\<close>

text \<open>
  The inode array after the iteration: the numbers of a file with data go to the current inode
  \<open>c\<close>, its data and size to the inode \<open>k\<close>.
\<close>

definition store_inode :: "memory \<Rightarrow> u64 \<Rightarrow> entry \<Rightarrow> nat \<Rightarrow> nat \<Rightarrow> inode list \<Rightarrow> inode list" where
  "store_inode m a e c k ns =
     (let ns = ns[c := (ns ! c)\<lparr>device_number := load64 m (a + 70), inode_number := load64 m (a + 6)\<rparr>]
      in ns[k := (ns ! k)\<lparr>data := entry_data a e, data_size := of_nat (esize e)\<rparr>])"

definition entry_step :: "memory \<Rightarrow> u64 \<Rightarrow> entry \<Rightarrow> ramfs_loop \<Rightarrow> ramfs_loop \<Rightarrow> bool" where
  "entry_step m a e s s' \<longleftrightarrow>
     byte_stream s' = entry_end a e \<and> findex s' = findex s + 1 \<and>
     (\<exists>f. files s' = (files s)[unat (findex s) := f] \<and> file_name f = pad_name (ename e) \<and>
          file_type f = etype e \<and> next_file f = None \<and>
          (has_data e \<longrightarrow> children_or_ino f = ToInode (unat (iindex s + 1)))) \<and>
     (if has_data e
      then iindex s' = iindex s + 2 \<and> current_ino s' = unat (iindex s + 1) \<and>
           inodes s' = store_inode m a e (current_ino s) (unat (iindex s + 1)) (inodes s)
      else iindex s' = iindex s \<and> current_ino s' = current_ino s \<and> inodes s' = inodes s)"

definition ramfs_wf :: "'a ramfs_loop_scheme \<Rightarrow> bool" where
  "ramfs_wf s \<longleftrightarrow> length (files s) = ROOTFS_FILE_COUNT \<and> length (inodes s) = ROOTFS_INODE_COUNT \<and>
     current_ino s < ROOTFS_INODE_COUNT"

lemma unat8_less: "unat (x :: u8) < 256"
  using unsigned_less [of x, where ?'a = nat] by simp

lemma ramfs_counts: "ROOTFS_FILE_COUNT = 256" "ROOTFS_INODE_COUNT = 256"
  by (simp_all add: ROOTFS_FILE_COUNT_def ROOTFS_INODE_COUNT_def)

lemma entry_header:
  assumes "entry_at m a e"
  shows "check_magic m a = 0" "check_end_archive m (a + 110) = 0"
    "int_from_string m (a + 54) 8 = of_nat (esize e)"
    "int_from_string m (a + 94) 8 = of_nat (length (ename e) + 1)"
    "get_file_type m (a + 18) = etype e"
    "parse_name m (replicate FILENAME_SIZE 0) par 0 (a + 110) = Some (pad_name (ename e), par)"
proof -
  have "length (ename e) + 1 < 2 ^ 32" using assms by (simp add: entry_at_def plain_def FILENAME_SIZE_def)
  then show "int_from_string m (a + 94) 8 = of_nat (length (ename e) + 1)"
    using assms by (intro int_from_string_hex) (simp_all add: entry_at_def)
  show "int_from_string m (a + 54) 8 = of_nat (esize e)"
    using assms by (intro int_from_string_hex) (simp_all add: entry_at_def)
qed (use assms in \<open>simp_all add: entry_at_def check_magic_eq check_end_archive_eq parse_name_plain\<close>)

lemma entry_padding:
  assumes "entry_at m a e"
  shows "padded (6 + 13 * 8 + of_nat (length (ename e) + 1)) + a = entry_data a e"
    "entry_data a e + padded (of_nat (esize e)) = entry_end a e"
proof -
  have "length (ename e) < 16" "esize e < 2 ^ 32"
    using assms by (simp_all add: entry_at_def plain_def FILENAME_SIZE_def)
  then have "padded (of_nat (110 + length (ename e) + 1)) = of_nat ((110 + length (ename e) + 1 + 3) div 4 * 4)"
    "padded (of_nat (esize e)) = of_nat ((esize e + 3) div 4 * 4)"
    by (intro padded_of_nat; simp)+
  then show "padded (6 + 13 * 8 + of_nat (length (ename e) + 1)) + a = entry_data a e"
    "entry_data a e + padded (of_nat (esize e)) = entry_end a e"
    by (simp_all add: entry_data_def entry_end_def add.commute)
qed

definition typed :: "memory \<Rightarrow> u64 \<Rightarrow> entry \<Rightarrow> ramfs_loop \<Rightarrow> ramfs_loop \<Rightarrow> bool" where
  "typed m a e s s1 \<longleftrightarrow>
     (\<exists>g. files s1 = (files s)[unat (findex s) := g] \<and> file_type g = etype e) \<and>
     findex s1 = findex s \<and> byte_stream s1 = byte_stream s \<and>
     (if has_data e
      then iindex s1 = iindex s + 1 \<and> current_ino s1 = unat (iindex s + 1) \<and>
           inodes s1 = (inodes s)[current_ino s := (inodes s ! current_ino s)
             \<lparr>device_number := load64 m (a + 70), inode_number := load64 m (a + 6)\<rparr>]
      else iindex s1 = iindex s \<and> current_ino s1 = current_ino s \<and> inodes s1 = inodes s)"

lemma typed_upd_file:
  assumes "file_type (h (files s ! unat (findex s))) = etype e" "\<not> has_data e"
  shows "typed m a e s (upd_file (unat (findex s)) h s)"
  using assms unfolding typed_def by (auto simp: upd_file_def)

lemma typed_data:
  assumes "has_data e" "etype e = REGULAR"
  shows "typed m a e s (upd_file (unat (findex s)) (\<lambda>f. f\<lparr>file_type := REGULAR\<rparr>)
    (s\<lparr>inodes := (inodes s)[current_ino s := (inodes s ! current_ino s)
          \<lparr>device_number := load64 m (a + 70), inode_number := load64 m (a + 6)\<rparr>],
       iindex := iindex s + 1, current_ino := unat (iindex s + 1)\<rparr>))"
  using assms unfolding typed_def by (auto simp: upd_file_def)

lemma set_type_plain:
  assumes "ramfs_wf s" "etype e \<noteq> INVALID" "esize e < 2 ^ 32"
  shows "\<exists>s1. set_type m (etype e) (a + 6) (a + 70) (of_nat (esize e)) s = Some s1 \<and> typed m a e s s1"
proof (cases "etype e")
  case DIRECTORY
  then show ?thesis by (auto simp: set_type_def Let_def has_data_def intro: typed_upd_file)
next
  case REGULAR
  have len: "unat (findex s) < length (files s)" using assms(1) by (simp add: ramfs_wf_def ramfs_counts unat8_less)
  have zero: "(of_nat (esize e) :: u64) = 0 \<longleftrightarrow> esize e = 0"
    using assms(3) by (simp add: word_eq_iff_unsigned [where ?'a = nat] unat_of_nat take_bit_nat_eq_self)
  show ?thesis
  proof (cases "esize e = 0")
    case True
    then have nd: "\<not> has_data e" by (simp add: has_data_def)
    show ?thesis
    proof (cases "find_inode (load64 m (a + 70)) (load64 m (a + 6)) s")
      case None
      with REGULAR True nd show ?thesis
        by (auto simp: set_type_def Let_def intro: typed_upd_file)
    next
      case (Some i)
      with REGULAR True len nd show ?thesis
        by (auto simp: set_type_def Let_def intro: typed_upd_file)
    qed
  next
    case False
    then have d: "has_data e" using REGULAR by (simp add: has_data_def)
    from typed_data [OF d REGULAR, of m a s] False REGULAR zero show ?thesis
      by (auto simp: set_type_def Let_def upd_inode_def)
  qed
qed (use assms in simp)

lemma link_parent_none:
  "link_parent (replicate FILENAME_SIZE 0) s =
     Some (Inr (upd_file (unat (findex s)) (\<lambda>f. f\<lparr>next_file := None\<rparr>) s))"
  by (simp add: link_parent_def FILENAME_SIZE_def)

lemma set_data_eq:
  assumes "esize e < 2 ^ 32"
  shows "set_data (etype e) (of_nat (esize e)) p s =
    (if has_data e
     then upd_inode (unat (iindex s)) (\<lambda>n. n\<lparr>data_size := of_nat (esize e)\<rparr>)
       ((upd_file (unat (findex s)) (\<lambda>f. f\<lparr>children_or_ino := ToInode (current_ino s)\<rparr>)
          (upd_inode (current_ino s) (\<lambda>n. n\<lparr>data := p\<rparr>) s))
          \<lparr>current_ino := unat (iindex s), iindex := iindex s + 1\<rparr>)
     else s)"
proof -
  have "sint (of_nat (esize e) :: u64) > 0 \<longleftrightarrow> 0 < esize e"
    using sint_of_nat [OF assms] by simp
  moreover have "ucast (of_nat (esize e) :: u64) = (of_nat (esize e) :: u32)"
    using assms by (simp add: unsigned_of_nat take_bit_nat_eq_self)
  ultimately show ?thesis by (auto simp: set_data_def has_data_def Let_def)
qed

lemma header_offsets:
  fixes a :: u64
  shows "a + 6 + 8 = a + 14" "a + 14 + 8 = a + 22" "a + 22 + 32 = a + 54" "a + 54 + 8 = a + 62"
    "a + 62 + 8 = a + 70" "a + 70 + 8 = a + 78" "a + 78 + 16 = a + 94" "a + 94 + 8 = a + 102"
    "a + 102 + 8 = a + 110" "a + 14 + 4 = a + 18"
  by simp_all

text \<open>The end of an iteration: the state after the name is stored, the data set and the indices advanced.\<close>

definition named :: "entry \<Rightarrow> ramfs_loop \<Rightarrow> ramfs_loop" where
  "named e s = upd_file (unat (findex s)) (\<lambda>f. f\<lparr>file_name := pad_name (ename e), next_file := None\<rparr>) s"

definition finished :: "u64 \<Rightarrow> entry \<Rightarrow> ramfs_loop \<Rightarrow> ramfs_loop" where
  "finished a e s =
     (let s = set_data (etype e) (of_nat (esize e)) (entry_data a e) (named e s)
      in s\<lparr>byte_stream := entry_end a e, findex := findex s + 1\<rparr>)"

lemma finished_step:
  assumes s: "ramfs_wf s" and t: "typed m a e s s1" and sz: "esize e < 2 ^ 32"
  shows "entry_step m a e s (finished a e s1)"
proof -
  define k where "k = unat (findex s)"
  obtain g where g: "files s1 = (files s)[k := g]" "file_type g = etype e" and fi: "findex s1 = findex s"
    using t by (auto simp: typed_def k_def)
  have k: "k < length (files s)" using s by (simp add: ramfs_wf_def ramfs_counts unat8_less k_def)
  have n: "inodes (named e s1) = inodes s1" "iindex (named e s1) = iindex s1" "findex (named e s1) = findex s"
    "current_ino (named e s1) = current_ino s1"
    "files (named e s1) = (files s)[k := g\<lparr>file_name := pad_name (ename e), next_file := None\<rparr>]"
    using g k fi by (simp_all add: named_def upd_file_def k_def)
  note simps = finished_def Let_def set_data_eq [OF sz]
  show ?thesis
  proof (cases "has_data e")
    case True
    let ?g = "g\<lparr>file_name := pad_name (ename e), next_file := None, children_or_ino := ToInode (unat (iindex s + 1))\<rparr>"
    have t: "iindex s1 = iindex s + 1" "current_ino s1 = unat (iindex s + 1)"
      "inodes s1 = (inodes s)[current_ino s := (inodes s ! current_ino s)
             \<lparr>device_number := load64 m (a + 70), inode_number := load64 m (a + 6)\<rparr>]"
      using t True by (simp_all add: typed_def)
    have "unat (iindex s + 1) < length (inodes s)" using s by (simp add: ramfs_wf_def ramfs_counts unat8_less)
    then have "inodes (finished a e s1) = store_inode m a e (current_ino s) (unat (iindex s + 1)) (inodes s)"
      using True t n by (simp add: simps upd_inode_def upd_file_def store_inode_def)
    moreover have "files (finished a e s1) = (files s)[k := ?g]"
      using True t n k by (simp add: simps upd_inode_def upd_file_def flip: k_def)
    ultimately show ?thesis
      using True g t n by (auto simp: entry_step_def simps k_def [symmetric] intro!: exI [of _ ?g])
  next
    case False
    then show ?thesis
      using n g t by (auto simp: entry_step_def typed_def simps k_def [symmetric]
          intro!: exI [of _ "g\<lparr>file_name := pad_name (ename e), next_file := None\<rparr>"])
  qed
qed

lemma init_step_entry:
  assumes e: "entry_at m a e" and s: "byte_stream s = a" "ramfs_wf s"
  shows "\<exists>s'. init_ramfs_step m s = Some (Inr (Inr s')) \<and> entry_step m a e s s'"
proof -
  have sz: "etype e \<noteq> INVALID" "esize e < 2 ^ 32" using e by (simp_all add: entry_at_def)
  obtain s1 where s1: "set_type m (etype e) (a + 6) (a + 70) (of_nat (esize e)) s = Some s1" "typed m a e s s1"
    using set_type_plain [OF s(2) sz] by blast
  have "unat (findex s1) < length (files s1)"
    using s1(2) s(2) by (auto simp: typed_def ramfs_wf_def ramfs_counts unat8_less)
  then have "init_ramfs_step m s = Some (Inr (Inr (finished a e s1)))"
    using entry_header [OF e] entry_padding [OF e] s1(1)
    unfolding init_ramfs_step_def Let_def s(1) header_offsets
    by (simp add: link_parent_none finished_def named_def Let_def)
  with finished_step [OF s(2) s1(2) sz(2)] show ?thesis by blast
qed

lemma init_step_stop:
  assumes "stop m (byte_stream s) = Some (c, r)"
  shows "init_ramfs_step m s = Some (Inr (Inl (c, r, ramfs.truncate s)))"
  using assms unfolding init_ramfs_step_def Let_def header_offsets
  by (auto simp: stop_def check_magic_eq check_end_archive_eq split: if_splits)

section \<open>The whole archive\<close>

lemma init_loop_stop:
  "stop m (byte_stream s) = Some (c, r) \<Longrightarrow> init_ramfs_loop m s = Some (Inr (c, r, ramfs.truncate s))"
  by (subst init_ramfs_loop.simps) (simp add: init_step_stop)

lemma init_loop_entry:
  "init_ramfs_step m s = Some (Inr (Inr s')) \<Longrightarrow> init_ramfs_loop m s = init_ramfs_loop m s'"
  by (subst init_ramfs_loop.simps) simp

lemma truncate_simps [simp]: "files (ramfs.truncate s) = files s" "inodes (ramfs.truncate s) = inodes s"
  by (simp_all add: ramfs.truncate_def)

lemma store_inode_data:
  assumes "c < length ns" "k < length ns"
  shows "data (store_inode m a e c k ns ! n) = (if n = k then entry_data a e else data (ns ! n))"
    "data_size (store_inode m a e c k ns ! n) = (if n = k then of_nat (esize e) else data_size (ns ! n))"
  using assms by (auto simp: store_inode_def Let_def nth_list_update)

lemma length_store_inode [simp]: "length (store_inode m a e c k ns) = length ns"
  by (simp add: store_inode_def Let_def)

lemma entry_step_wf:
  assumes "entry_step m a e s s'" "ramfs_wf s"
  shows "ramfs_wf s'"
  using assms by (auto simp: entry_step_def ramfs_wf_def ramfs_counts unat8_less split: if_splits)

lemma unat8_add: "unat (x :: u8) + n < 256 \<Longrightarrow> unat (x + of_nat n) = unat x + n"
  by (simp add: unat_word_ariths unat_of_nat take_bit_nat_eq_self)

definition kept :: "nat \<Rightarrow> 'a ramfs_scheme \<Rightarrow> nat \<Rightarrow> 'b ramfs_scheme \<Rightarrow> bool" where
  "kept k s i fs \<longleftrightarrow> (\<forall>j<k. files fs ! j = files s ! j) \<and>
     (\<forall>n\<le>i. data (inodes fs ! n) = data (inodes s ! n) \<and> data_size (inodes fs ! n) = data_size (inodes s ! n))"

text \<open>One entry in its slot, as seen in any later file system that keeps the slot and its inode.\<close>

lemma entry_step_loaded:
  assumes st: "entry_step m a e s s'" and wf: "ramfs_wf s" and iu: "unat (iindex s) + 2 < 256 \<or> \<not> has_data e"
    and kp: "kept (unat (findex s) + 1) s' (unat (iindex s')) fs"
  shows "loaded fs (unat (findex s)) a e" "kept (unat (findex s)) s (unat (iindex s)) fs"
proof -
  let ?k = "unat (findex s)"
  have k: "?k < length (files s)" using wf by (simp add: ramfs_wf_def ramfs_counts unat8_less)
  obtain f where f: "files s' = (files s)[?k := f]" "file_name f = pad_name (ename e)" "file_type f = etype e"
    "next_file f = None" "has_data e \<longrightarrow> children_or_ino f = ToInode (unat (iindex s + 1))"
    using st by (auto simp: entry_step_def)
  have fk: "files fs ! ?k = f" using kp k f(1) by (simp add: kept_def)
  have one: "unat (iindex s + 1) = unat (iindex s) + 1" "unat (iindex s') = unat (iindex s) + 2"
    "current_ino s < length (inodes s)" "unat (iindex s + 1) < length (inodes s)"
    "inodes s' = store_inode m a e (current_ino s) (unat (iindex s + 1)) (inodes s)" if "has_data e"
    using that iu st wf unat8_add [of "iindex s" 1] unat8_add [of "iindex s" 2]
    by (auto simp: entry_step_def ramfs_wf_def ramfs_counts)
  show "loaded fs ?k a e"
    using f fk kp one by (auto simp: loaded_def kept_def store_inode_data)
  show "kept ?k s (unat (iindex s)) fs"
  proof (cases "has_data e")
    case True
    with kp f(1) one show ?thesis by (auto simp: kept_def store_inode_data)
  next
    case False
    with st have "inodes s' = inodes s" "iindex s' = iindex s" by (simp_all add: entry_step_def)
    with kp f(1) show ?thesis by (auto simp: kept_def)
  qed
qed

lemma load_entries:
  assumes "archive m a es (c, r)" "byte_stream s = a" "ramfs_wf s"
    and "unat (findex s) + length es < 256" "unat (iindex s) + 2 * length (filter has_data es) < 256"
  shows "\<exists>fs. init_ramfs_loop m s = Some (Inr (c, r, fs)) \<and>
    (\<forall>i<length es. loaded fs (unat (findex s) + i) (entry_addr a es i) (es ! i)) \<and>
    kept (unat (findex s)) s (unat (iindex s)) fs"
  using assms
proof (induction es arbitrary: a s)
  case Nil
  then show ?case using init_loop_stop [of m s c r] by (auto simp: kept_def)
next
  case (Cons e es)
  then have e: "entry_at m a e" and ar: "archive m (entry_end a e) es (c, r)" by simp_all
  obtain s' where s': "init_ramfs_step m s = Some (Inr (Inr s'))" "entry_step m a e s s'"
    using init_step_entry [OF e Cons.prems(2,3)] by blast
  have fi: "unat (findex s') = unat (findex s) + 1"
    using s'(2) Cons.prems(4) unat8_add [of "findex s" 1] by (simp add: entry_step_def)
  have ii: "unat (iindex s') + 2 * length (filter has_data es) < 256"
    using s'(2) Cons.prems(5) unat8_add [of "iindex s" 2] by (simp add: entry_step_def split: if_splits)
  have "\<exists>fs. init_ramfs_loop m s' = Some (Inr (c, r, fs)) \<and>
      (\<forall>i<length es. loaded fs (unat (findex s') + i) (entry_addr (entry_end a e) es i) (es ! i)) \<and>
      kept (unat (findex s')) s' (unat (iindex s')) fs"
    by (rule Cons.IH [OF ar]) (use s'(2) entry_step_wf [OF s'(2) Cons.prems(3)] fi ii Cons.prems(4) in
        \<open>simp_all add: entry_step_def\<close>)
  then obtain fs where fs: "init_ramfs_loop m s' = Some (Inr (c, r, fs))"
    "\<forall>i<length es. loaded fs (unat (findex s) + 1 + i) (entry_addr (entry_end a e) es i) (es ! i)"
    "kept (unat (findex s) + 1) s' (unat (iindex s')) fs"
    unfolding fi by blast
  have "unat (iindex s) + 2 < 256 \<or> \<not> has_data e" using Cons.prems(5) by (auto split: if_splits)
  note here = entry_step_loaded [OF s'(2) Cons.prems(3) this fs(3)]
  have "loaded fs (unat (findex s) + i) (entry_addr a (e # es) i) ((e # es) ! i)" if "i < length (e # es)" for i
    using that here(1) fs(2) by (cases i) (auto simp: add.assoc)
  with here(2) fs(1) init_loop_entry [OF s'(1)] show ?case by auto
qed

section \<open>Searching\<close>

text \<open>An unused slot of \<^verbatim>\<open>files\<close>, as the zeroed bss section leaves it.\<close>

definition empty_file :: fsfile where
  "empty_file = \<lparr>file_name = replicate FILENAME_SIZE 0, file_parent = None, file_type = INVALID,
     next_file = None, children_or_ino = Null\<rparr>"

definition empty_inode :: inode where
  "empty_inode = \<lparr>data = 0, inode_number = 0, device_number = 0, data_size = 0\<rparr>"

definition empty_ramfs :: ramfs where
  "empty_ramfs = \<lparr>files = replicate ROOTFS_FILE_COUNT empty_file, inodes = replicate ROOTFS_INODE_COUNT empty_inode\<rparr>"

lemma search_file_loop_finds:
  assumes names: "\<forall>i<ROOTFS_FILE_COUNT. \<exists>n. is_cstring (arr_str (file_name (files fs ! i))) n"
    and name: "is_cstring name k" and j: "j < ROOTFS_FILE_COUNT" "arr_str (file_name (files fs ! j)) 0 = Some 0"
    and i: "i \<le> j"
  shows "\<exists>h\<le>j. i \<le> h \<and> search_file_loop i name fs = Inr (Some h)"
  using i
proof (induction "j - i" arbitrary: i)
  case 0
  then have "i = j" by simp
  have "is_cstring (arr_str (file_name (files fs ! j))) 0" using j(2) by (simp add: is_cstring_def)
  from streq.empty_matches [OF this name] \<open>i = j\<close> j show ?case by (subst search_file_loop.simps) simp
next
  case (Suc d)
  then have i: "i < ROOTFS_FILE_COUNT" "i + 1 \<le> j" using j by auto
  obtain n where "is_cstring (arr_str (file_name (files fs ! i))) n" using names i by blast
  from streq.returns [OF this name] obtain q where q: "strequal (arr_str (file_name (files fs ! i))) name = Some q" ..
  show ?case
  proof (cases "q = 0")
    case True
    obtain h where "h \<le> j" "i + 1 \<le> h" "search_file_loop (i + 1) name fs = Inr (Some h)"
      using Suc.hyps(1) [of "i + 1"] Suc.hyps(2) i by (metis Suc_eq_plus1 diff_Suc_1 diff_Suc_eq_diff_pred diff_commute)
    with True i q show ?thesis by (subst search_file_loop.simps) auto
  next
    case False
    with i q show ?thesis by (subst search_file_loop.simps) auto
  qed
qed

section \<open>A sample archive\<close>

text \<open>Two regular files \<^verbatim>\<open>a\<close> and \<^verbatim>\<open>b\<close> with the contents \<^verbatim>\<open>hello\<close> and \<^verbatim>\<open>hey\<close>, then the trailer.\<close>

definition sample_entry :: "nat \<Rightarrow> u8 \<Rightarrow> entry" where
  "sample_entry sz c = \<lparr>ename = [c], etype = REGULAR, esize = sz\<rparr>"

definition sample_file :: "nat \<Rightarrow> u8 \<Rightarrow> u8 list" where
  "sample_file sz c = MAGIC @ hex_digits 8 2 @ replicate 4 0x30 @ FILE_IDENT @ replicate 32 0x30 @
     hex_digits 8 sz @ replicate 32 0x30 @ hex_digits 8 2 @ replicate 8 0x30 @ [c, 0]"

definition sample_bytes :: "u8 list" where
  "sample_bytes = sample_file 5 0x61 @ [0x68, 0x65, 0x6C, 0x6C, 0x6F, 0, 0, 0] @
     sample_file 3 0x62 @ [0x68, 0x65, 0x79, 0] @ (MAGIC @ replicate 104 0x30 @ END)"

definition sample_memory :: memory where
  "sample_memory = (\<lambda>x. if unat (x - RAMFS_START) < length sample_bytes
     then sample_bytes ! unat (x - RAMFS_START) else 0)"

lemma bytes_at_list:
  assumes "length xs < 2 ^ 64"
  shows "bytes_at (\<lambda>x. if unat (x - a) < length xs then xs ! unat (x - a) else 0) a xs"
proof -
  have "unat (of_nat i :: u64) = i" if "i < length xs" for i
    using assms that by (simp add: unat_of_nat take_bit_nat_eq_self)
  then show ?thesis by (simp add: bytes_at_def)
qed

lemma length_sample_file [simp]: "length (sample_file sz c) = 112"
  by (simp add: sample_file_def)

lemma sample_file_entry:
  assumes b: "bytes_at m a (sample_file sz c)" and c: "c \<noteq> 0" "c \<noteq> 0x2F" "c \<noteq> 0x54" and sz: "sz < 2 ^ 32"
  shows "entry_at m a (sample_entry sz c)"
proof -
  have f: "bytes_at m a MAGIC" "bytes_at m (a + 18) FILE_IDENT" "bytes_at m (a + 54) (hex_digits 8 sz)"
    "bytes_at m (a + 94) (hex_digits 8 2)" "bytes_at m (a + 110) [c, 0]"
    using b unfolding sample_file_def by (simp_all add: bytes_at_append add.commute)
  have "\<not> bytes_at m (a + 110) END" using f(5) c(3) by (auto simp: bytes_at_Cons END_def)
  with f c sz show ?thesis
    by (simp add: entry_at_def sample_entry_def get_file_type_eq plain_def FILENAME_SIZE_def numeral_2_eq_2)
qed

lemma sample_at:
  shows "entry_at sample_memory RAMFS_START (sample_entry 5 0x61)"
    "entry_at sample_memory (RAMFS_START + 120) (sample_entry 3 0x62)"
    "stop sample_memory (RAMFS_START + 236) = Some (0, Some (RAMFS_START + 346))"
proof -
  have "bytes_at sample_memory RAMFS_START sample_bytes"
    unfolding sample_memory_def by (rule bytes_at_list) (simp add: sample_bytes_def)
  then have b: "bytes_at sample_memory RAMFS_START (sample_file 5 0x61)"
    "bytes_at sample_memory (RAMFS_START + 120) (sample_file 3 0x62)"
    "bytes_at sample_memory (RAMFS_START + 236) (MAGIC @ replicate 104 0x30 @ END)"
    unfolding sample_bytes_def bytes_at_append [of _ _ "sample_file _ _"] bytes_at_append [of _ _ "[_, _, _, _]"]
      bytes_at_append [of _ _ "[_, _, _, _, _, _, _, _]"]
    by (simp_all add: add.commute)
  from b(1) show "entry_at sample_memory RAMFS_START (sample_entry 5 0x61)"
    by (rule sample_file_entry) simp_all
  from b(2) show "entry_at sample_memory (RAMFS_START + 120) (sample_entry 3 0x62)"
    by (rule sample_file_entry) simp_all
  from b(3) show "stop sample_memory (RAMFS_START + 236) = Some (0, Some (RAMFS_START + 346))"
    by (simp add: stop_def bytes_at_append add.commute)
qed

lemma sample_ends: "entry_end RAMFS_START (sample_entry 5 0x61) = RAMFS_START + 120"
  "entry_end (RAMFS_START + 120) (sample_entry 3 0x62) = RAMFS_START + 236"
  by (simp_all add: entry_end_def entry_data_def sample_entry_def)

lemma sample_archive:
  "archive sample_memory RAMFS_START [sample_entry 5 0x61, sample_entry 3 0x62] (0, Some (RAMFS_START + 346))"
  using sample_at by (simp add: sample_ends)

lemma init_ramfs_archive:
  assumes "archive m RAMFS_START es (c, r)" "length es < 256" "length (filter has_data es) < 128"
    and "length (files fs) = ROOTFS_FILE_COUNT" "length (inodes fs) = ROOTFS_INODE_COUNT"
  shows "\<exists>fs'. init_ramfs m fs = Some (Inr (c, r, fs')) \<and>
    (\<forall>i<length es. loaded fs' i (entry_addr RAMFS_START es i) (es ! i))"
proof -
  let ?s = "ramfs.extend fs (ramfs_loop.fields 0 0 0 RAMFS_START)"
  have "byte_stream ?s = RAMFS_START" "unat (findex ?s) = 0" "unat (iindex ?s) = 0"
    by (simp_all add: ramfs.extend_def ramfs_loop.fields_def)
  moreover have "ramfs_wf ?s"
    using assms(4,5) by (simp add: ramfs.extend_def ramfs_loop.fields_def ramfs_wf_def ramfs_counts)
  ultimately show ?thesis
    using load_entries [OF assms(1), of ?s] assms(2,3) unfolding init_ramfs_def by auto
qed

section \<open>Properties\<close>

text \<open>\<^verbatim>\<open>init_ramfs\<close> loads an archive: when the memory at \<^verbatim>\<open>RAMFS_START\<close> holds fewer than 256 directories and regular
  files with plain names, at most 127 of them with data, it terminates without an invalid access. It
  returns 0 with the position of the trailer if the entries end in a trailer and -1 if they
  end in a bad magic number, and in both cases slot \<open>i\<close> has the name and type of entry \<open>i\<close>, and
  the inode of a file with data points to its data and has its size.\<close>

theorem init_ramfs_loads_archive:
  assumes "archive m RAMFS_START es (c, r)" "length es < 256" "length (filter has_data es) < 128"
    and "length (files fs) = ROOTFS_FILE_COUNT" "length (inodes fs) = ROOTFS_INODE_COUNT"
  shows "\<exists>fs'. init_ramfs m fs = Some (Inr (c, r, fs')) \<and>
    (\<forall>i<length es. loaded fs' i (entry_addr RAMFS_START es i) (es ! i))"
  using assms by (rule init_ramfs_archive)

theorem init_ramfs_loads_archive_witness:
  "\<exists>fs'. init_ramfs sample_memory empty_ramfs = Some (Inr (0, Some (RAMFS_START + 346), fs')) \<and>
     loaded fs' 0 RAMFS_START (sample_entry 5 0x61) \<and> loaded fs' 1 (RAMFS_START + 120) (sample_entry 3 0x62)"
proof -
  have len: "length (files empty_ramfs) = ROOTFS_FILE_COUNT" "length (inodes empty_ramfs) = ROOTFS_INODE_COUNT"
    by (simp_all add: empty_ramfs_def)
  have "length [sample_entry 5 0x61, sample_entry 3 0x62] < 256"
    "length (filter has_data [sample_entry 5 0x61, sample_entry 3 0x62]) < 128" by simp_all
  from init_ramfs_loads_archive [OF sample_archive this len] obtain fs' where
    r: "init_ramfs sample_memory empty_ramfs = Some (Inr (0, Some (RAMFS_START + 346), fs'))" and
    l: "\<forall>i<length [sample_entry 5 0x61, sample_entry 3 0x62].
      loaded fs' i (entry_addr RAMFS_START [sample_entry 5 0x61, sample_entry 3 0x62] i)
        ([sample_entry 5 0x61, sample_entry 3 0x62] ! i)" by blast
  from l [rule_format, of 0] l [rule_format, of 1] r show ?thesis by (simp add: sample_ends)
qed

text \<open>The header fields: \<^verbatim>\<open>int_from_string\<close> reads back the eight upper-case hexadecimal digits of any 32-bit
  number, and is -1 when any of the characters is not such a digit.\<close>

theorem int_from_string_roundtrip:
  "(n < 2 ^ 32 \<longrightarrow> bytes_at m p (hex_digits 8 n) \<longrightarrow> int_from_string m p 8 = of_nat n) \<and>
   (bytes_at m p cs \<longrightarrow> (\<exists>c\<in>set cs. int_from_char c = -1) \<longrightarrow> int_from_string m p (int (length cs)) = -1)"
proof (intro conjI impI)
  show "int_from_string m p 8 = of_nat n" if "n < 2 ^ 32" "bytes_at m p (hex_digits 8 n)"
    using that by (intro int_from_string_hex)
  assume b: "bytes_at m p cs" and c: "\<exists>c\<in>set cs. int_from_char c = -1"
  have "hex_value acc cs = -1" for acc using c by (induction cs arbitrary: acc) auto
  moreover have "cs \<noteq> []" using c by auto
  ultimately show "int_from_string m p (int (length cs)) = -1" using int_from_string_value [OF b] by simp
qed

theorem int_from_string_roundtrip_witness:
  "int_from_string (\<lambda>a. hex_digits 8 0x1A2B3C ! unat (a - 0x1000)) 0x1000 8 = 0x1A2B3C"
  using int_from_string_roundtrip [of "0x1A2B3C" "\<lambda>a. hex_digits 8 0x1A2B3C ! unat (a - 0x1000)" "0x1000" "[]"]
  by (simp add: bytes_at_def unat_of_nat take_bit_nat_eq_self)

text \<open>C39: The name loop splits a path: a plain name becomes the file's name with no parent, and in
  \<open>d/n\<close> the name is \<open>n\<close> and the parent's name \<open>d\<close>, both padded with zeroes to 16 bytes.\<close>

theorem parse_name_splits_path:
  assumes "plain n"
  shows "(bytes_at m p (n @ [0]) \<longrightarrow>
      parse_name m (replicate FILENAME_SIZE 0) (replicate FILENAME_SIZE 0) 0 p =
        Some (pad_name n, replicate FILENAME_SIZE 0)) \<and>
    (plain d \<longrightarrow> bytes_at m p (d @ [0x2F] @ n @ [0]) \<longrightarrow>
      parse_name m (replicate FILENAME_SIZE 0) (replicate FILENAME_SIZE 0) 0 p =
        Some (pad_name n, pad_name d))"
proof (intro conjI impI)
  assume d: "plain d" "bytes_at m p (d @ [0x2F] @ n @ [0])"
  then have "bytes_at m p (d @ [0x2F])" "bytes_at m (p + of_nat (length d) + 1) (n @ [0])"
    by (auto simp: bytes_at_append bytes_at_Cons add.assoc)
  with parse_name_slash [OF d(1)] parse_name_plain [OF assms]
  show "parse_name m (replicate FILENAME_SIZE 0) (replicate FILENAME_SIZE 0) 0 p = Some (pad_name n, pad_name d)"
    by simp
qed (rule parse_name_plain [OF assms])

theorem parse_name_splits_path_witness:
  "parse_name (\<lambda>a. [0x62, 0x2F, 0x73, 0x68, 0] ! unat (a - 0x1000)) (replicate FILENAME_SIZE 0)
     (replicate FILENAME_SIZE 0) 0 0x1000 = Some (pad_name [0x73, 0x68], pad_name [0x62])"
proof -
  let ?m = "\<lambda>a :: u64. [0x62, 0x2F, 0x73, 0x68, 0 :: u8] ! unat (a - 0x1000)"
  have "plain [0x73, 0x68]" "plain [0x62]" by (simp_all add: plain_def FILENAME_SIZE_def)
  moreover have "bytes_at ?m 0x1000 ([0x62] @ [0x2F] @ [0x73, 0x68] @ [0])"
    by (simp add: bytes_at_Cons)
  ultimately show ?thesis using parse_name_splits_path [of "[0x73, 0x68]" ?m "0x1000" "[0x62]"] by simp
qed

text \<open>\<^verbatim>\<open>search_file\<close> never reports a missing file while a slot is unused: since \<^verbatim>\<open>strequal\<close> is a prefix test,
  an empty name matches, and some slot up to the first unused one is returned for every name.\<close>

theorem search_file_finds_unused_slot:
  assumes "\<forall>i<ROOTFS_FILE_COUNT. \<exists>n. is_cstring (arr_str (file_name (files fs ! i))) n" "is_cstring name k"
    and "j < ROOTFS_FILE_COUNT" "arr_str (file_name (files fs ! j)) 0 = Some 0"
  shows "\<exists>h\<le>j. search_file name fs = Inr (Some h)"
  using search_file_loop_finds [OF assms, of 0] by (auto simp: search_file_def)

theorem search_file_finds_unused_slot_witness:
  "\<exists>h\<le>0. search_file (arr_str [0x78, 0]) empty_ramfs = Inr (Some h)"
  by (rule search_file_finds_unused_slot [of _ _ 1])
     (auto intro!: exI [of _ 0] simp: empty_ramfs_def empty_file_def ramfs_counts is_cstring_def arr_str_def
        FILENAME_SIZE_def)

text \<open>Reading any file of a file system with no files goes through a null inode pointer instead of
  returning -1.\<close>

theorem read_missing_file_null:
  assumes "\<forall>i<ROOTFS_FILE_COUNT. files fs ! i = empty_file" "is_cstring name k"
  shows "read name offset fs = Inl NullDeref"
proof -
  have "is_cstring (arr_str (file_name empty_file)) 0"
    by (simp add: is_cstring_def arr_str_def empty_file_def FILENAME_SIZE_def)
  then have names: "\<forall>i<ROOTFS_FILE_COUNT. \<exists>n. is_cstring (arr_str (file_name (files fs ! i))) n"
    using assms(1) by auto
  obtain h where h: "h \<le> 0" "search_file name fs = Inr (Some h)"
    using search_file_loop_finds [OF names assms(2), of 0 0] assms(1)
    by (auto simp: search_file_def ramfs_counts arr_str_def empty_file_def FILENAME_SIZE_def)
  then show ?thesis using assms(1) by (simp add: read_def ramfs_counts empty_file_def)
qed

theorem read_missing_file_null_witness: "read (arr_str [0x78, 0]) 0 empty_ramfs = Inl NullDeref"
  by (rule read_missing_file_null [of _ _ 1])
     (auto simp: empty_ramfs_def is_cstring_def arr_str_def)

text \<open>C40: The numbers of an inode and its data come apart. For two consecutive files with data, the device and
  inode number of the second are stored in the inode that holds the data of the first, so a
  hard link to the second file resolves to the contents of the first.\<close>

theorem inode_numbers_shifted:
  assumes "entry_at m a e1" "entry_at m (entry_end a e1) e2" "has_data e1" "has_data e2"
    and "byte_stream s = a" "ramfs_wf s" "unat (iindex s) + 4 < 256"
  shows "\<exists>s1 s2 n. init_ramfs_step m s = Some (Inr (Inr s1)) \<and> init_ramfs_step m s1 = Some (Inr (Inr s2)) \<and>
    children_or_ino (files s1 ! unat (findex s)) = ToInode n \<and> data (inodes s2 ! n) = entry_data a e1 \<and>
    inode_number (inodes s2 ! n) = load64 m (entry_end a e1 + 6) \<and>
    device_number (inodes s2 ! n) = load64 m (entry_end a e1 + 70)"
proof -
  obtain s1 where s1: "init_ramfs_step m s = Some (Inr (Inr s1))" "entry_step m a e1 s s1"
    using init_step_entry [OF assms(1,5,6)] by blast
  have wf1: "ramfs_wf s1" using s1(2) assms(6) by (rule entry_step_wf)
  have bs: "byte_stream s1 = entry_end a e1" using s1(2) by (simp add: entry_step_def)
  obtain s2 where s2: "init_ramfs_step m s1 = Some (Inr (Inr s2))" "entry_step m (entry_end a e1) e2 s1 s2"
    using init_step_entry [OF assms(2) bs wf1] by blast
  define n where "n = unat (iindex s + 1)"
  have k: "unat (findex s) < length (files s)" "n < length (inodes s)" "current_ino s < length (inodes s)"
    using assms(6) by (simp_all add: ramfs_wf_def ramfs_counts unat8_less n_def)
  have i1: "iindex s1 = iindex s + 2" "current_ino s1 = n" "inodes s1 = store_inode m a e1 (current_ino s) n (inodes s)"
    using s1(2) assms(3) by (simp_all add: entry_step_def n_def)
  have c: "children_or_ino (files s1 ! unat (findex s)) = ToInode n"
    using s1(2) assms(3) k by (auto simp: entry_step_def n_def)
  have ne: "unat (iindex s1 + 1) \<noteq> n" "unat (iindex s1 + 1) < length (inodes s)"
    using unat8_add [of "iindex s" 1] unat8_add [of "iindex s" 3] assms(6,7) i1(1)
    by (simp_all add: n_def ramfs_wf_def ramfs_counts add.commute)
  have "inodes s2 = store_inode m (entry_end a e1) e2 n (unat (iindex s1 + 1)) (inodes s1)"
    using s2(2) assms(4) i1(2) by (simp add: entry_step_def)
  then have "data (inodes s2 ! n) = entry_data a e1" "inode_number (inodes s2 ! n) = load64 m (entry_end a e1 + 6)"
    "device_number (inodes s2 ! n) = load64 m (entry_end a e1 + 70)"
    using ne k i1(3) by (simp_all add: store_inode_def Let_def nth_list_update)
  with s1(1) s2(1) c show ?thesis by blast
qed

theorem inode_numbers_shifted_witness:
  "\<exists>s1 s2 n. init_ramfs_step sample_memory (ramfs.extend empty_ramfs (ramfs_loop.fields 0 0 0 RAMFS_START)) =
       Some (Inr (Inr s1)) \<and>
     init_ramfs_step sample_memory s1 = Some (Inr (Inr s2)) \<and>
     children_or_ino (files s1 ! 0) = ToInode n \<and> data (inodes s2 ! n) = RAMFS_START + 112 \<and>
     inode_number (inodes s2 ! n) = load64 sample_memory (RAMFS_START + 126)"
proof -
  let ?s = "ramfs.extend empty_ramfs (ramfs_loop.fields 0 0 0 RAMFS_START) :: ramfs_loop"
  have hd: "has_data (sample_entry 5 0x61)" "has_data (sample_entry 3 0x62)"
    by (simp_all add: has_data_def sample_entry_def)
  have s: "byte_stream ?s = RAMFS_START" "ramfs_wf ?s" "unat (iindex ?s) + 4 < 256" "unat (findex ?s) = 0"
    by (simp_all add: ramfs.extend_def ramfs_loop.fields_def ramfs_wf_def empty_ramfs_def ramfs_counts)
  have e2: "entry_at sample_memory (entry_end RAMFS_START (sample_entry 5 0x61)) (sample_entry 3 0x62)"
    unfolding sample_ends by (rule sample_at)
  have d: "entry_data RAMFS_START (sample_entry 5 0x61) = RAMFS_START + 112"
    by (simp add: entry_data_def sample_entry_def)
  from inode_numbers_shifted [OF sample_at(1) e2 hd s(1-3)] show ?thesis
    unfolding sample_ends s(4) d by (elim exE conjE) (auto simp: add.assoc)
qed

end
