(* ===== verification/Uart.thy ===== *)
theory Uart
  imports Memory_Map Strings
begin

text \<open>
  The mini UART driver, \<^verbatim>\<open>kernel/uart.c\<close>, and the interrupt and exception handlers of
  \<^verbatim>\<open>kernel/exceptions.c\<close> and \<^verbatim>\<open>kernel/low_level.c\<close> that use it or other device registers.

  The devices are not code of the repository: \<open>bus\<close> gives what a load from and a store to a device
  register do to the state \<open>'d\<close> of the devices, and is an argument of every definition. What the
  driver relies on is \<open>mini_uart\<close>: reading the line status shows whether input is waiting and, after
  finitely many reads, that the transmitter is free; reading and writing the data register takes
  the next input byte and sends a byte. Polling loops are partial functions: \<open>None\<close> is a
  loop that never ends.
\<close>

section \<open>The bus\<close>

record 'd bus =
  rd :: "u64 \<Rightarrow> 'd \<Rightarrow> u32 \<times> 'd"
  wr :: "u64 \<Rightarrow> u32 \<Rightarrow> 'd \<Rightarrow> 'd"

section \<open>The driver\<close>

definition uart_init :: "'d bus \<Rightarrow> 'd \<Rightarrow> 'd" where
  "uart_init b d =
     (let (v, d) = rd b AUX_ENABLE d;
          d = wr b AUX_ENABLE (v OR 1) d;
          d = wr b AUX_MU_CNTL 0 d;
          d = wr b AUX_MU_IER 0 d;
          d = wr b AUX_MU_LCR 3 d;
          d = wr b AUX_MU_MCR 0 d;
          d = wr b AUX_MU_BAUD 270 d;
          d = wr b AUX_MU_IIR 0x6 d;
          d = wr b AUX_MU_CNTL 1 d
      in wr b AUX_MU_IER 2 d)"

text \<open>The polling loops: wait until a bit of the line status register is set, with a \<^verbatim>\<open>nop\<close> between reads.\<close>

definition spin :: "'d \<Rightarrow> 'd" where
  "spin d = d"

partial_function (option) wait_lsr :: "'d bus \<Rightarrow> u32 \<Rightarrow> 'd \<Rightarrow> 'd option" where
  "wait_lsr b bits d =
     (case rd b AUX_MU_LSR d of (v, d) \<Rightarrow> if v AND bits = 0 then wait_lsr b bits (spin d) else Some d)"

declare wait_lsr.simps [code]

definition uart_send :: "'d bus \<Rightarrow> u8 \<Rightarrow> 'd \<Rightarrow> 'd option" where
  "uart_send b c d =
     (case wait_lsr b 0x20 d of None \<Rightarrow> None | Some d \<Rightarrow> Some (wr b AUX_MU_IO (ucast c) d))"

definition cr_to_lf :: "u8 \<Rightarrow> u8" where
  "cr_to_lf r = (if r = 0x0D then 0x0A else r)"

definition uart_getc_sync :: "'d bus \<Rightarrow> 'd \<Rightarrow> (u8 \<times> 'd) option" where
  "uart_getc_sync b d =
     (case wait_lsr b 0x01 d of
        None \<Rightarrow> None
      | Some d \<Rightarrow> (case rd b AUX_MU_IO d of (r, d) \<Rightarrow> Some (cr_to_lf (ucast r), d)))"

text \<open>\<^verbatim>\<open>char\<close> is unsigned on AArch64, so \<^verbatim>\<open>return -1\<close> is 255.\<close>

definition uart_getc :: "'d bus \<Rightarrow> 'd \<Rightarrow> u8 \<times> 'd" where
  "uart_getc b d =
     (case rd b AUX_MU_LSR d of (v, d) \<Rightarrow>
        if v AND 0x01 \<noteq> 0 then (case rd b AUX_MU_IO d of (r, d) \<Rightarrow> (cr_to_lf (ucast r), d))
        else (-1, d))"

partial_function (option) uart_puts :: "'d bus \<Rightarrow> cstr \<Rightarrow> nat \<Rightarrow> 'd \<Rightarrow> 'd option" where
  "uart_puts b s i d =
     (case s i of
        None \<Rightarrow> None
      | Some c \<Rightarrow>
          if c \<noteq> 0
          then (case uart_send b c d of None \<Rightarrow> None | Some d \<Rightarrow> uart_puts b s (i + 1) d)
          else Some d)"

declare uart_puts.simps [code]

partial_function (option) uart_echo :: "'d bus \<Rightarrow> u8 \<Rightarrow> 'd \<Rightarrow> 'd option" where
  "uart_echo b c d =
     (if c \<noteq> 255
      then (case uart_send b c d of
              None \<Rightarrow> None
            | Some d \<Rightarrow> (case uart_getc b d of (c, d) \<Rightarrow> uart_echo b c d))
      else Some d)"

declare uart_echo.simps [code]

definition uart_interrupt :: "'d bus \<Rightarrow> 'd \<Rightarrow> 'd option" where
  "uart_interrupt b d =
     (case rd b AUX_MU_IIR d of (iir, d) \<Rightarrow>
        if iir AND 4 \<noteq> 0 then (case uart_getc b d of (c, d) \<Rightarrow> uart_echo b c d) else Some d)"

section \<open>Timer and interrupts\<close>

text \<open>
  \<open>timer\<close> is the part of the core's system registers the handlers use. \<^verbatim>\<open>lsr x0, x0, x1\<close> shifts by
  the register modulo 64, so the \<^verbatim>\<open>200\<close> in \<^verbatim>\<open>x1\<close> shifts by 8.
\<close>

record timer =
  cntfrq_el0 :: u64
  cntp_ctl_el0 :: u64
  cntp_tval_el0 :: u64

definition reprogram_timer :: "timer \<Rightarrow> timer" where
  "reprogram_timer t = t\<lparr>cntp_tval_el0 := drop_bit (200 mod 64) (cntfrq_el0 t)\<rparr>"

definition timer_irq_ctrl :: "u8 \<Rightarrow> u64 option" where
  "timer_irq_ctrl cpu_id =
     (if cpu_id = 0 then Some CORE0_TIMER_IRQ_CTRL else if cpu_id = 1 then Some CORE1_TIMER_IRQ_CTRL
      else if cpu_id = 2 then Some CORE2_TIMER_IRQ_CTRL else if cpu_id = 3 then Some CORE3_TIMER_IRQ_CTRL
      else None)"

definition enable_timer_interrupt :: "'d bus \<Rightarrow> u8 \<Rightarrow> timer \<times> 'd \<Rightarrow> int \<times> timer \<times> 'd" where
  "enable_timer_interrupt b cpu_id st =
     (case st of (t, d) \<Rightarrow>
        case timer_irq_ctrl cpu_id of
          None \<Rightarrow> (-1, t, d)
        | Some reg \<Rightarrow> (0, reprogram_timer (t\<lparr>cntp_ctl_el0 := 1\<rparr>), wr b reg 2 d))"

text \<open>
  In \<^verbatim>\<open>handle_irq\<close> the pointer to the interrupt source register stays uninitialised for a core number
  above 3; \<open>junk\<close> is what it then holds.
\<close>

definition irq_src :: "u64 \<Rightarrow> u8 \<Rightarrow> u64" where
  "irq_src junk cpu_id =
     (if cpu_id = 0 then CORE0_IRQ_SRC else if cpu_id = 1 then CORE1_IRQ_SRC
      else if cpu_id = 2 then CORE2_IRQ_SRC else if cpu_id = 3 then CORE3_IRQ_SRC else junk)"

definition uart_pending :: "'d bus \<Rightarrow> 'd \<Rightarrow> bool \<times> 'd" where
  "uart_pending b d =
     (case rd b AUX_IRQ d of (v, d) \<Rightarrow>
        if v AND 1 \<noteq> 0 then (case rd b AUX_MU_IIR d of (w, d) \<Rightarrow> (w AND 4 \<noteq> 0, d)) else (False, d))"

definition handle_irq :: "'d bus \<Rightarrow> u64 \<Rightarrow> u8 \<Rightarrow> timer \<times> 'd \<Rightarrow> (timer \<times> 'd) option" where
  "handle_irq b junk cpu_id st =
     (case st of (t, d) \<Rightarrow>
        case uart_pending b d of (pending, d) \<Rightarrow>
          case (if pending then uart_interrupt b d else Some d) of
            None \<Rightarrow> None
          | Some d \<Rightarrow>
              (case rd b (irq_src junk cpu_id) d of (src, d) \<Rightarrow>
                 let t = (if src AND 2 \<noteq> 0 then reprogram_timer t else t);
                     (v, d) = rd b AUX_MU_IIR d
                 in Some (t, wr b AUX_MU_IIR (v AND 1) d)))"

section \<open>The exception report\<close>

text \<open>
  The strings \<^verbatim>\<open>exception_handler\<close> passes to \<^verbatim>\<open>uart_puts\<close>, in order; a \<^verbatim>\<open>switch\<close> without a matching
  case prints nothing.
\<close>

definition newline :: string where "newline = [CHR 0x0A]"

definition tab :: string where "tab = [CHR 0x09]"

definition state_text :: "u64 \<Rightarrow> string list" where
  "state_text st = (if st = 0 then [''EL1T''] else if st = 1 then [''EL1H''] else if st = 2 then [''EL0_64'']
     else if st = 3 then [''EL0_32''] else [])"

definition type_text :: "u64 \<Rightarrow> string list" where
  "type_text ty = (if ty = 0 then [''Synchronous''] else if ty = 1 then [''IRQ''] else if ty = 2 then [''FIQ'']
     else if ty = 3 then [''SError''] else [])"

definition class_text :: "u64 \<Rightarrow> string" where
  "class_text ec = (if ec = 0b000000 then ''Unknown'' else if ec = 0b000001 then ''Trapped WFI/WFE''
     else if ec = 0b001110 then ''Illegal execution'' else if ec = 0b010101 then ''System call''
     else if ec = 0b100000 then ''Instruction abort, lower EL''
     else if ec = 0b100001 then ''Instruction abort, same EL''
     else if ec = 0b100010 then ''Instruction alignment fault''
     else if ec = 0b100100 then ''Data abort, lower EL'' else if ec = 0b100101 then ''Data abort, same EL''
     else if ec = 0b100110 then ''Stack alignment fault'' else if ec = 0b101100 then ''Floating point''
     else ''Unknown'')"

definition fault_text :: "u64 \<Rightarrow> string list" where
  "fault_text f = (if f = 0 then [''Address size fault''] else if f = 1 then [''Translation fault'']
     else if f = 2 then [''Access flag fault''] else if f = 3 then [''Permission fault''] else [])"

definition level_text :: "u64 \<Rightarrow> string list" where
  "level_text l = (if l = 0 then ['' at level 0''] else if l = 1 then ['' at level 1'']
     else if l = 2 then ['' at level 2''] else if l = 3 then ['' at level 3''] else [])"

definition exception_strings :: "u64 \<Rightarrow> u64 \<Rightarrow> u64 \<Rightarrow> string list" where
  "exception_strings st ty esr =
     state_text st @ ['':'' @ tab] @ type_text ty @ ['':'' @ newline] @
     [class_text (drop_bit 26 esr)] @ [newline] @
     (if drop_bit 26 esr = 0b100100 \<or> drop_bit 26 esr = 0b100101
      then ['', ''] @ fault_text (drop_bit 2 esr AND 3) @ level_text (esr AND 3) else []) @
     [newline]"

text \<open>A string literal: its characters and the terminator.\<close>

definition literal :: "string \<Rightarrow> u8 list" where
  "literal s = map of_char s @ [0]"

primrec puts_all :: "'d bus \<Rightarrow> string list \<Rightarrow> 'd \<Rightarrow> 'd option" where
  "puts_all b [] d = Some d"
| "puts_all b (s # ss) d =
     (case uart_puts b (arr_str (literal s)) 0 d of None \<Rightarrow> None | Some d \<Rightarrow> puts_all b ss d)"

definition exception_handler :: "'d bus \<Rightarrow> u64 \<Rightarrow> u64 \<Rightarrow> u64 \<Rightarrow> 'd \<Rightarrow> 'd option" where
  "exception_handler b st ty esr d = puts_all b (exception_strings st ty esr) d"

section \<open>What the driver relies on\<close>

text \<open>
  \<open>mini_uart b out inp busy\<close>: the bus \<open>b\<close> behaves like the mini UART of the manual. \<open>out d\<close> are the bytes sent
  so far, \<open>inp d\<close> the received bytes not yet read, \<open>busy d\<close> how many more reads of the line status
  find the transmitter full.
\<close>

definition mini_uart ::
  "'d bus \<Rightarrow> ('d \<Rightarrow> u8 list) \<Rightarrow> ('d \<Rightarrow> u8 list) \<Rightarrow> ('d \<Rightarrow> nat) \<Rightarrow> bool" where
  "mini_uart b out inp busy \<longleftrightarrow>
     (\<forall>d. case rd b AUX_MU_LSR d of (v, d') \<Rightarrow>
        (v AND 0x20 \<noteq> 0 \<longleftrightarrow> busy d = 0) \<and> (v AND 0x01 \<noteq> 0 \<longleftrightarrow> inp d \<noteq> []) \<and>
        out d' = out d \<and> inp d' = inp d \<and> busy d' = busy d - 1) \<and>
     (\<forall>d c cs. inp d = c # cs \<longrightarrow>
        (case rd b AUX_MU_IO d of (v, d') \<Rightarrow> ucast v = c \<and> inp d' = cs \<and> out d' = out d)) \<and>
     (\<forall>d v. out (wr b AUX_MU_IO v d) = out d @ [ucast v] \<and> inp (wr b AUX_MU_IO v d) = inp d) \<and>
     (\<forall>d. case rd b AUX_MU_IIR d of (v, d') \<Rightarrow>
        (v AND 4 \<noteq> 0 \<longleftrightarrow> inp d \<noteq> []) \<and> out d' = out d \<and> inp d' = inp d)"

section \<open>Lemmas\<close>

lemma mini_uartD:
  assumes "mini_uart b out inp busy"
  shows lsr_read: "rd b AUX_MU_LSR d = (v, d') \<Longrightarrow>
      (v AND 0x20 \<noteq> 0 \<longleftrightarrow> busy d = 0) \<and> (v AND 0x01 \<noteq> 0 \<longleftrightarrow> inp d \<noteq> []) \<and>
      out d' = out d \<and> inp d' = inp d \<and> busy d' = busy d - 1"
    and io_read: "rd b AUX_MU_IO d = (v, d') \<Longrightarrow> inp d = c # cs \<Longrightarrow>
      ucast v = c \<and> inp d' = cs \<and> out d' = out d"
    and io_write: "out (wr b AUX_MU_IO v d) = out d @ [ucast v] \<and> inp (wr b AUX_MU_IO v d) = inp d"
    and iir_read: "rd b AUX_MU_IIR d = (v, d') \<Longrightarrow> (v AND 4 \<noteq> 0 \<longleftrightarrow> inp d \<noteq> []) \<and> out d' = out d \<and> inp d' = inp d"
proof -
  note u = assms [unfolded mini_uart_def]
  note u1 = u [THEN conjunct1] and u2 = u [THEN conjunct2, THEN conjunct1]
    and u3 = u [THEN conjunct2, THEN conjunct2, THEN conjunct1]
    and u4 = u [THEN conjunct2, THEN conjunct2, THEN conjunct2]
  show "rd b AUX_MU_LSR d = (v, d') \<Longrightarrow>
      (v AND 0x20 \<noteq> 0 \<longleftrightarrow> busy d = 0) \<and> (v AND 0x01 \<noteq> 0 \<longleftrightarrow> inp d \<noteq> []) \<and>
      out d' = out d \<and> inp d' = inp d \<and> busy d' = busy d - 1"
    using u1 [rule_format, of d] by simp
  show "rd b AUX_MU_IO d = (v, d') \<Longrightarrow> inp d = c # cs \<Longrightarrow> ucast v = c \<and> inp d' = cs \<and> out d' = out d"
    using u2 [rule_format, of d c cs] by simp
  show "out (wr b AUX_MU_IO v d) = out d @ [ucast v] \<and> inp (wr b AUX_MU_IO v d) = inp d"
    using u3 by blast
  show "rd b AUX_MU_IIR d = (v, d') \<Longrightarrow> (v AND 4 \<noteq> 0 \<longleftrightarrow> inp d \<noteq> []) \<and> out d' = out d \<and> inp d' = inp d"
    using u4 [rule_format, of d] by simp
qed

lemma wait_tx:
  assumes u: "mini_uart b out inp busy"
  shows "\<exists>d'. wait_lsr b 0x20 d = Some d' \<and> out d' = out d \<and> inp d' = inp d"
proof (induction "busy d" arbitrary: d)
  case 0
  obtain v d' where r: "rd b AUX_MU_LSR d = (v, d')" by fastforce
  with lsr_read [OF u r] 0 show ?case by (subst wait_lsr.simps) simp
next
  case (Suc n)
  obtain v d1 where r: "rd b AUX_MU_LSR d = (v, d1)" by fastforce
  with lsr_read [OF u r] Suc(2) have d1: "v AND 0x20 = 0" "out d1 = out d" "inp d1 = inp d" "n = busy d1"
    by auto
  from Suc(1) [OF d1(4)] d1 r show ?case by (subst wait_lsr.simps) (simp add: spin_def)
qed

lemma ucast_u8_u32: "ucast (ucast (c :: u8) :: u32) = c"
  by (rule bit_word_eqI) (simp add: bit_ucast_iff)

lemma send_byte:
  assumes u: "mini_uart b out inp busy"
  shows "\<exists>d'. uart_send b c d = Some d' \<and> out d' = out d @ [c] \<and> inp d' = inp d"
proof -
  obtain d1 where d1: "wait_lsr b 0x20 d = Some d1" "out d1 = out d" "inp d1 = inp d"
    using wait_tx [OF u] by blast
  with io_write [OF u, of "ucast c" d1] show ?thesis by (simp add: uart_send_def ucast_u8_u32)
qed

lemma getc_byte:
  assumes u: "mini_uart b out inp busy"
  obtains d' where "uart_getc b d = (case inp d of [] \<Rightarrow> 255 | c # cs \<Rightarrow> cr_to_lf c, d')"
    "inp d' = tl (inp d)" "out d' = out d"
proof -
  obtain v d1 where r: "rd b AUX_MU_LSR d = (v, d1)" by fastforce
  note l = lsr_read [OF u r]
  obtain w d2 where r2: "rd b AUX_MU_IO d1 = (w, d2)" by fastforce
  show ?thesis
  proof (cases "inp d")
    case Nil
    with l r show ?thesis by (intro that [of d1]) (simp_all add: uart_getc_def)
  next
    case (Cons c cs)
    with l io_read [OF u r2, of c cs] r r2 show ?thesis by (intro that [of d2]) (simp_all add: uart_getc_def)
  qed
qed

lemma puts_bytes:
  assumes u: "mini_uart b out inp busy" and s: "is_cstring s n" and i: "i \<le> n"
  shows "\<exists>d'. uart_puts b s i d = Some d' \<and> out d' = out d @ map (\<lambda>j. the (s j)) [i..<n] \<and> inp d' = inp d"
  using i
proof (induction "n - i" arbitrary: i d)
  case 0
  then have "i = n" by simp
  with s show ?case by (subst uart_puts.simps) (simp add: is_cstring_def)
next
  case (Suc k)
  then have "i < n" by simp
  then obtain c where c: "s i = Some c" "c \<noteq> 0" using s by (auto simp: is_cstring_def)
  obtain d1 where d1: "uart_send b c d = Some d1" "out d1 = out d @ [c]" "inp d1 = inp d"
    using send_byte [OF u] by blast
  have "k = n - (i + 1)" "i + 1 \<le> n" using Suc(2) by simp_all
  from Suc(1) [OF this, of d1] obtain d2 where d2: "uart_puts b s (i + 1) d1 = Some d2"
    "out d2 = out d1 @ map (\<lambda>j. the (s j)) [i + 1..<n]" "inp d2 = inp d1" by blast
  with c d1 \<open>i < n\<close> show ?case by (subst uart_puts.simps) (simp add: upt_conv_Cons)
qed

lemma cr_to_lf_255 [simp]: "cr_to_lf c = 255 \<longleftrightarrow> c = 255"
  by (simp add: cr_to_lf_def)

lemma echo_stream:
  assumes u: "mini_uart b out inp busy"
  shows "\<exists>d'. uart_echo b c d = Some d' \<and>
    out d' = out d @ takeWhile (\<lambda>x. x \<noteq> 255) (c # map cr_to_lf (inp d)) \<and>
    inp d' = (if c = 255 then inp d else tl (dropWhile (\<lambda>x. x \<noteq> 255) (inp d)))"
proof (induction "inp d" arbitrary: c d)
  case Nil
  obtain d1 where d1: "uart_send b c d = Some d1" "out d1 = out d @ [c]" "inp d1 = inp d"
    using send_byte [OF u] by blast
  obtain d2 where "uart_getc b d1 = (255, d2)" "inp d2 = []" "out d2 = out d1"
    using getc_byte [OF u, of d1] Nil d1 by (metis list.sel(2) list.simps(4))
  with Nil d1 show ?case by (subst uart_echo.simps) (simp add: uart_echo.simps [of _ 255])
next
  case (Cons x xs)
  obtain d1 where d1: "uart_send b c d = Some d1" "out d1 = out d @ [c]" "inp d1 = inp d"
    using send_byte [OF u] by blast
  obtain d2 where d2: "uart_getc b d1 = (cr_to_lf x, d2)" "inp d2 = xs" "out d2 = out d1"
    using getc_byte [OF u, of d1] Cons(2) d1 by (metis list.sel(3) list.simps(5))
  from Cons(1) [OF d2(2) [symmetric], of "cr_to_lf x"] obtain d3 where
    "uart_echo b (cr_to_lf x) d2 = Some d3"
    "out d3 = out d2 @ takeWhile (\<lambda>x. x \<noteq> 255) (cr_to_lf x # map cr_to_lf (inp d2))"
    "inp d3 = (if x = 255 then inp d2 else tl (dropWhile (\<lambda>x. x \<noteq> 255) (inp d2)))"
    by auto
  with Cons(2) d1 d2 show ?case by (subst uart_echo.simps) (auto simp: Cons(2) [symmetric])
qed

lemma uart_interrupt_stream:
  assumes "mini_uart b out inp busy"
  shows "\<exists>d'. uart_interrupt b d = Some d' \<and>
    out d' = out d @ takeWhile (\<lambda>c. c \<noteq> 255) (map cr_to_lf (inp d)) \<and>
    inp d' = tl (dropWhile (\<lambda>c. c \<noteq> 255) (inp d))"
proof -
  obtain v d1 where r: "rd b AUX_MU_IIR d = (v, d1)" by fastforce
  note i = iir_read [OF assms r]
  show ?thesis
  proof (cases "inp d")
    case Nil
    with i r show ?thesis by (simp add: uart_interrupt_def)
  next
    case (Cons c cs)
    obtain d2 where d2: "uart_getc b d1 = (cr_to_lf c, d2)" "inp d2 = cs" "out d2 = out d1"
      using getc_byte [OF assms, of d1] Cons i by (metis list.sel(3) list.simps(5))
    from echo_stream [OF assms, of "cr_to_lf c" d2] Cons i r d2 show ?thesis
      by (auto simp: uart_interrupt_def)
  qed
qed

definition printable :: "string \<Rightarrow> bool" where
  "printable s \<longleftrightarrow> (0 :: u8) \<notin> set (map of_char s)"

lemma literal_bytes:
  assumes "printable s"
  shows "is_cstring (arr_str (literal s)) (length s)"
    "map (\<lambda>j. the (arr_str (literal s) j)) [0..<length s] = map of_char s"
proof -
  have "(of_char (s ! i) :: u8) \<noteq> 0" if "i < length s" for i
    using assms that by (auto simp: printable_def)
  then show "is_cstring (arr_str (literal s)) (length s)"
    by (auto simp: is_cstring_def arr_str_def literal_def nth_append)
  show "map (\<lambda>j. the (arr_str (literal s) j)) [0..<length s] = map of_char s"
    by (intro nth_equalityI) (auto simp: arr_str_def literal_def nth_append)
qed

lemma puts_all_bytes:
  assumes u: "mini_uart b out inp busy" and ss: "list_all printable ss"
  shows "\<exists>d'. puts_all b ss d = Some d' \<and> out d' = out d @ concat (map (map of_char) ss) \<and> inp d' = inp d"
  using ss
proof (induction ss arbitrary: d)
  case (Cons s ss)
  obtain d1 where d1: "uart_puts b (arr_str (literal s)) 0 d = Some d1" "out d1 = out d @ map of_char s" "inp d1 = inp d"
    using puts_bytes [OF u literal_bytes(1), of s 0 d] literal_bytes(2) [of s] Cons.prems by auto
  with Cons.IH [of d1] Cons.prems show ?case by auto
qed simp

lemma exception_strings_printable: "list_all printable (exception_strings st ty esr)"
proof -
  have "list_all printable (state_text st)" "list_all printable (type_text ty)" "printable (class_text ec)"
    "list_all printable (fault_text f)" "list_all printable (level_text l)" for ec f l
    by (simp_all add: state_text_def type_text_def class_text_def fault_text_def level_text_def printable_def)
  then show ?thesis
    by (simp add: exception_strings_def) (simp add: printable_def newline_def tab_def)
qed

section \<open>A simulated UART\<close>

text \<open>A device that satisfies \<open>mini_uart\<close>, for the examples: the bytes sent and the bytes waiting.\<close>

definition sim_bus :: "(u8 list \<times> u8 list) bus" where
  "sim_bus = \<lparr>
     rd = (\<lambda>r (sent, waiting).
       if r = AUX_MU_LSR then (if waiting = [] then 0x20 else 0x21, sent, waiting)
       else if r = AUX_MU_IIR then (if waiting = [] then 0 else 4, sent, waiting)
       else if r = AUX_MU_IO then (case waiting of [] \<Rightarrow> (0, sent, []) | c # cs \<Rightarrow> (ucast c, sent, cs))
       else (0, sent, waiting)),
     wr = (\<lambda>r v (sent, waiting). if r = AUX_MU_IO then (sent @ [ucast v], waiting) else (sent, waiting))\<rparr>"

lemma sim_bus_mini_uart: "mini_uart sim_bus fst snd (\<lambda>_. 0)"
proof -
  have "AUX_MU_IO \<noteq> AUX_MU_LSR" "AUX_MU_IO \<noteq> AUX_MU_IIR" "AUX_MU_IIR \<noteq> AUX_MU_LSR"
    by (simp_all add: register_defs)
  then show ?thesis by (simp add: mini_uart_def sim_bus_def ucast_u8_u32 split: prod.splits)
qed

section \<open>Properties\<close>

text \<open>C36: On a mini UART, \<^verbatim>\<open>uart_puts\<close> returns for every terminated string and sends exactly its bytes, in
  order, without touching the input.\<close>

theorem uart_puts_sends_string:
  assumes "mini_uart b out inp busy" "is_cstring s n"
  shows "\<exists>d'. uart_puts b s 0 d = Some d' \<and> out d' = out d @ map (\<lambda>j. the (s j)) [0..<n] \<and> inp d' = inp d"
  using puts_bytes [OF assms, of 0] by simp

theorem uart_puts_sends_string_witness:
  "\<exists>d'. uart_puts sim_bus (arr_str [72, 105, 0]) 0 ([], [5]) = Some d' \<and> fst d' = [72, 105] \<and> snd d' = [5]"
proof -
  have "is_cstring (arr_str [72, 105, 0]) 2" by code_simp
  from uart_puts_sends_string [OF sim_bus_mini_uart this, of "([], [5])"] show ?thesis
    by (simp add: upt_rec arr_str_def)
qed

text \<open>C37: \<^verbatim>\<open>uart_interrupt\<close> on a mini UART returns. It echoes the waiting input in order, with carriage
  returns turned into newlines, up to the first byte 255, which \<^verbatim>\<open>uart_getc\<close> also returns for no input and which is
  therefore taken for the end: that byte is read and lost, and what follows it stays unread. All of the input is
  echoed exactly when it contains no byte 255.\<close>

theorem uart_interrupt_echoes:
  assumes "mini_uart b out inp busy"
  shows "\<exists>d'. uart_interrupt b d = Some d' \<and>
    out d' = out d @ takeWhile (\<lambda>c. c \<noteq> 255) (map cr_to_lf (inp d)) \<and>
    inp d' = tl (dropWhile (\<lambda>c. c \<noteq> 255) (inp d))"
  using assms by (rule uart_interrupt_stream)

theorem uart_interrupt_echoes_witness:
  "\<exists>d'. uart_interrupt sim_bus ([], [104, 13, 255, 7]) = Some d' \<and> fst d' = [104, 10] \<and> snd d' = [7]"
  using uart_interrupt_echoes [OF sim_bus_mini_uart, of "([], [104, 13, 255, 7])"] by (simp add: cr_to_lf_def)

text \<open>\<^verbatim>\<open>exception_handler\<close> returns for all arguments and sends the report: the state, the type and the
  exception class, and for data aborts the fault and its level.\<close>

theorem exception_handler_sends_report:
  assumes "mini_uart b out inp busy"
  shows "\<exists>d'. exception_handler b st ty esr d = Some d' \<and> inp d' = inp d \<and>
    out d' = out d @ concat (map (map of_char) (exception_strings st ty esr))"
  using puts_all_bytes [OF assms exception_strings_printable, of st ty esr d]
  unfolding exception_handler_def by blast

theorem exception_handler_sends_report_witness:
  "\<exists>d'. exception_handler sim_bus 2 0 0x92000007 ([], []) = Some d' \<and>
    fst d' = map of_char (''EL0_64:'' @ tab @ ''Synchronous:'' @ newline @ ''Data abort, lower EL'' @ newline @
      '', Translation fault at level 3'' @ newline)"
  using exception_handler_sends_report [OF sim_bus_mini_uart, of 2 0 "0x92000007" "([], [])"]
  by (simp add: exception_strings_def state_text_def type_text_def class_text_def fault_text_def level_text_def
      tab_def newline_def)

end
