(* ===== verification/Boot.thy ===== *)
theory Boot
  imports Descriptors Rootfs_Load Uart
begin

text \<open>
  The boot of core 0, \<^verbatim>\<open>kernel/main.c\<close>, over all components, and what the order of its calls means for
  the file system. \<open>kernel_view\<close> is the memory as the kernel sees it at its virtual addresses,
  \<^verbatim>\<open>VKERN_START\<close> above the physical ones.
\<close>

definition kernel_view :: "memory \<Rightarrow> memory" where
  "kernel_view m = (\<lambda>a. m (a - VKERN_START))"

section \<open>The machine\<close>

text \<open>
  \<open>machine\<close> is what \<^verbatim>\<open>main\<close> works on: the allocator's state, the file system, the devices, and the system
  registers it sets.
\<close>

record 'd machine = kmem +
  rootfs :: ramfs
  dev :: 'd
  core_timer :: timer
  masked :: bool
  vbar_el1 :: u64
  spsr_el1 :: u64
  ttbr0 :: u64
  ttbr1 :: u64
  tcr_el1 :: u64
  mair_el1 :: u64
  sctlr_el1 :: u64

definition MAIR_CONFIG :: u64 where
  "MAIR_CONFIG = push_bit (MAIR_IDX_DEVICE_nGnRnE * 8) MAIR_DEVICE_nGnRnE OR
     push_bit (MAIR_IDX_NORMAL_NOCACHE * 8) MAIR_NORMAL_NOCACHE"

text \<open>
  Once bit 0 of \<^verbatim>\<open>sctlr_el1\<close> is set every access is translated, by the table in \<^verbatim>\<open>ttbr1_el1\<close> for the upper half of the
  addresses and in \<^verbatim>\<open>ttbr0_el1\<close> for the lower half. The hardware is the argument \<open>mmu\<close>; an address it does not translate
  faults. \<open>first_fault\<close> is the first address of a sequence of accesses that does, and \<open>mmu_view\<close> is the memory
  read through the translation.
\<close>

definition access :: "mmu \<Rightarrow> ('d, 'a) machine_scheme \<Rightarrow> u64 \<Rightarrow> u64 option" where
  "access mmu s a =
     (if sctlr_el1 s AND 1 = 0 then Some a
      else (case mmu (mem s) (if bit a 55 then ttbr1 s else ttbr0 s) a of
              None \<Rightarrow> None
            | Some p \<Rightarrow> Some (p + a mod PageSize)))"

definition first_fault :: "mmu \<Rightarrow> ('d, 'a) machine_scheme \<Rightarrow> u64 list \<Rightarrow> u64 option" where
  "first_fault mmu s as = find (\<lambda>a. access mmu s a = None) as"

definition mmu_view :: "mmu \<Rightarrow> ('d, 'a) machine_scheme \<Rightarrow> memory" where
  "mmu_view mmu s = (\<lambda>a. case access mmu s a of Some p \<Rightarrow> mem s p | None \<Rightarrow> 0)"

text \<open>
  \<open>enable_vmem\<close> is the routine of \<^verbatim>\<open>kernel/boot.S\<close>. \<open>test\<close> is the address of its label and \<open>lr\<close> the address in \<^verbatim>\<open>main\<close> it
  was called from, both physical. The two instructions after the write of \<^verbatim>\<open>sctlr_el1\<close>, the three at the
  label and the one at the new return address, \<^verbatim>\<open>VKERN_START\<close> up, are fetched through the tables: the result is the
  first of these addresses that faults, or the address at which \<^verbatim>\<open>main\<close> goes on.
\<close>

definition enable_vmem ::
  "mmu \<Rightarrow> u64 \<Rightarrow> u64 \<Rightarrow> u64 \<Rightarrow> ('d, 'a) machine_scheme \<Rightarrow> (u64 + u64) \<times> ('d, 'a) machine_scheme" where
  "enable_vmem mmu test lr pagetable s =
     (let s = s\<lparr>tcr_el1 := TCR_CONFIG_DEFAULT, mair_el1 := MAIR_CONFIG, ttbr0 := pagetable, ttbr1 := pagetable,
                sctlr_el1 := (sctlr_el1 s OR 1) AND NOT (push_bit 2 1) AND NOT (push_bit 12 1)\<rparr>;
          lr = lr + VKERN_START
      in case first_fault mmu s [test - 8, test - 4, test, test + 4, test + 8, lr] of
           Some a \<Rightarrow> (Inl a, s)
         | None \<Rightarrow> (Inr lr, s))"

definition get_cpu_id :: "u64 \<Rightarrow> u8" where
  "get_cpu_id mpidr_el1 = ucast mpidr_el1"

definition irq_vector_init :: "u64 \<Rightarrow> ('d, 'a) machine_scheme \<Rightarrow> ('d, 'a) machine_scheme" where
  "irq_vector_init vector s = s\<lparr>vbar_el1 := vector\<rparr>"

definition enable_interrupts :: "('d, 'a) machine_scheme \<Rightarrow> ('d, 'a) machine_scheme" where
  "enable_interrupts s = s\<lparr>masked := False\<rparr>"

definition disable_interrupts :: "('d, 'a) machine_scheme \<Rightarrow> ('d, 'a) machine_scheme" where
  "disable_interrupts s = s\<lparr>masked := True\<rparr>"

definition user_timer_interrputs_enable :: "('d, 'a) machine_scheme \<Rightarrow> ('d, 'a) machine_scheme" where
  "user_timer_interrputs_enable s = s\<lparr>spsr_el1 := 0x340\<rparr>"

text \<open>
  \<^verbatim>\<open>main\<close>: \<open>Returns r\<close> is its \<^verbatim>\<open>return\<close>, \<open>Loops e\<close> its final loop, with the padded \<^verbatim>\<open>rootfs_end\<close> on core 0, and \<open>Faults a\<close>
  an access to an address \<open>a\<close> that is not translated, where the run of \<^verbatim>\<open>main\<close> ends. The
  arguments are what the code takes from elsewhere: the bus, the memory management unit, the addresses set by the
  linker script and the assembler, the core's identification register \<^verbatim>\<open>mpidr_el1\<close>, and the values \<^verbatim>\<open>map_region\<close>
  leaves in the return register. \<open>None\<close> is a loop of a called function that never ends.

  The accesses that are checked after \<^verbatim>\<open>enable_vmem\<close> are its own fetches, the first byte of the archive, which is the
  first thing \<^verbatim>\<open>init_ramfs\<close> reads, the page of the UART registers, and the timer register. The code, stack and
  variables of \<^verbatim>\<open>main\<close> and of the functions it calls lie in the image, like the addresses \<^verbatim>\<open>enable_vmem\<close> has already
  fetched, and are not checked again; nor are the further pages of an archive whose first page is mapped, where a
  byte without a translation reads as 0.
\<close>

datatype main_end = Returns int | Loops "u64 option" | Faults u64

definition pad_rootfs_end :: "u64 \<Rightarrow> u64" where
  "pad_rootfs_end e = ucast ((ucast (e + PageSize - 1) :: u32) div 4096 * 4096)"

text \<open>
  The part from \<^verbatim>\<open>irq_vector_init\<close> on; the result is the address that faults, if any. \<^verbatim>\<open>enable_timer_interrupt\<close> sets
  the timer registers of the core before it stores to the device register.
\<close>

definition main_devices ::
  "'d bus \<Rightarrow> mmu \<Rightarrow> u64 \<Rightarrow> u64 \<Rightarrow> 'd machine \<Rightarrow> (u64 option \<times> 'd machine) option" where
  "main_devices b mmu vector mpidr_el1 s =
     (let s = irq_vector_init vector s;
          s = enable_interrupts s
      in case first_fault mmu s [AUX_ENABLE] of
           Some a \<Rightarrow> Some (Some a, s)
         | None \<Rightarrow>
             (let s = s\<lparr>dev := uart_init b (dev s)\<rparr>
              in case uart_puts b (arr_str (literal (''Hello World!'' @ newline))) 0 (dev s) of
                   None \<Rightarrow> None
                 | Some d \<Rightarrow>
                     (case enable_timer_interrupt b (get_cpu_id mpidr_el1) (core_timer s, d) of (_, t, d') \<Rightarrow>
                        case first_fault mmu s (case timer_irq_ctrl (get_cpu_id mpidr_el1) of None \<Rightarrow> [] | Some r \<Rightarrow> [r]) of
                          Some a \<Rightarrow> Some (Some a, s\<lparr>core_timer := t, dev := d\<rparr>)
                        | None \<Rightarrow> Some (None, user_timer_interrputs_enable (s\<lparr>core_timer := t, dev := d'\<rparr>)))))"

definition main_ramfs ::
  "'d bus \<Rightarrow> mmu \<Rightarrow> u64 \<Rightarrow> u64 \<Rightarrow> 'd machine \<Rightarrow> (fs_error + main_end \<times> 'd machine) option" where
  "main_ramfs b mmu vector mpidr_el1 s =
     (case first_fault mmu s [RAMFS_START] of
        Some a \<Rightarrow> Some (Inr (Faults a, s))
      | None \<Rightarrow>
          (case init_ramfs (mmu_view mmu s) (rootfs s) of
             None \<Rightarrow> None
           | Some (Inl e) \<Rightarrow> Some (Inl e)
           | Some (Inr (r, e, fs)) \<Rightarrow>
               (let rootfs_end = (if r \<noteq> 0 then RAMFS_START else case e of Some a \<Rightarrow> a | None \<Rightarrow> RAMFS_START);
                    rootfs_end = pad_rootfs_end rootfs_end
                in case main_devices b mmu vector mpidr_el1 (s\<lparr>rootfs := fs\<rparr>) of
                     None \<Rightarrow> None
                   | Some (Some a, s) \<Rightarrow> Some (Inr (Faults a, s))
                   | Some (None, s) \<Rightarrow> Some (Inr (Loops (Some rootfs_end), s)))))"

definition main ::
  "'d bus \<Rightarrow> mmu \<Rightarrow> u64 \<Rightarrow> u64 \<Rightarrow> u64 \<Rightarrow> u64 \<Rightarrow> u64 \<Rightarrow> u64 \<Rightarrow> int \<Rightarrow> int \<Rightarrow> u64 \<Rightarrow> 'd machine \<Rightarrow>
   (fs_error + main_end \<times> 'd machine) option" where
  "main b mmu vector test lr kalloc_start kstart kend junk1 junk2 mpidr_el1 s =
     (if get_cpu_id mpidr_el1 = 0
      then (let s = kalloc_init kalloc_start s
            in case make_kpagetable kstart kend junk1 junk2 s of
                 None \<Rightarrow> None
               | Some (kernel_pagetable, s) \<Rightarrow>
                   if kernel_pagetable = 0 then Some (Inr (Returns (-1), s))
                   else (case enable_vmem mmu test lr kernel_pagetable s of
                           (Inl a, s) \<Rightarrow> Some (Inr (Faults a, s))
                         | (Inr _, s) \<Rightarrow> main_ramfs b mmu vector mpidr_el1 s))
      else Some (Inr (Loops None, s)))"

text \<open>\<^verbatim>\<open>tick\<close>, which nothing calls.\<close>

definition tick :: "'d bus \<Rightarrow> 'd \<Rightarrow> 'd option" where
  "tick b d = uart_puts b (arr_str (literal (''SYSCALL'' @ newline))) 0 d"

definition boot_machine :: "(u8 list \<times> u8 list) machine" where
  "boot_machine = \<lparr>mem = (\<lambda>_. 7), page_frame_linked_list = 0, rootfs = empty_ramfs, dev = ([], []),
     core_timer = \<lparr>cntfrq_el0 = 19200000, cntp_ctl_el0 = 0, cntp_tval_el0 = 0\<rparr>, masked = True,
     vbar_el1 = 0, spsr_el1 = 0, ttbr0 = 0, ttbr1 = 0, tcr_el1 = 0, mair_el1 = 0, sctlr_el1 = 0\<rparr>"

section \<open>Lemmas\<close>

lemma init_ramfs_bad_magic:
  assumes "\<not> bytes_at m RAMFS_START MAGIC"
  shows "init_ramfs m fs = Some (Inr (-1, None, fs))"
proof -
  let ?s = "ramfs.extend fs (ramfs_loop.fields 0 0 0 RAMFS_START) :: ramfs_loop"
  have "stop m (byte_stream ?s) = Some (-1, None)"
    using assms by (simp add: stop_def ramfs.extend_def ramfs_loop.fields_def)
  moreover have "ramfs.truncate ?s = fs"
    by (cases fs) (simp add: ramfs.extend_def ramfs.truncate_def)
  ultimately show ?thesis unfolding init_ramfs_def by (simp add: init_loop_stop)
qed

lemma kalloc_init_link:
  assumes st: "page_aligned start" "start \<noteq> 0" "start \<le> a" and a: "page_aligned a" "a + 4096 < kalloc_end"
    "a < kalloc_end"
  shows "load64 (mem (kalloc_init start s)) a = a + 4096"
proof -
  obtain k where k: "unat start = 4096 * k" using st(1) by (rule page_alignedE)
  obtain l where l: "unat a = 4096 * l" using a(1) by (rule page_alignedE)
  have kl: "k \<le> l" using st(3) k l by (simp add: word_le_nat_alt)
  have al: "4096 * l < 1056964608" using a(3) l by (simp add: word_less_nat_alt kalloc_end_eq)
  then have l2: "unat (a + 4096) = 4096 * (l + 1)" using l by (simp add: unat_word_ariths)
  then have lb: "4096 * (l + 1) < 1056964608" using a(2) by (simp add: word_less_nat_alt kalloc_end_eq)
  have small: "start < kalloc_end" "start + PageSize < kalloc_end"
    using k kl lb by (simp_all add: word_less_nat_alt kalloc_end_eq PageSize_def unat_word_ariths)
  have fr: "frames (kalloc_init start s) (pages_from start (frame_count start))"
    using kalloc_init_frames [OF st(1,2) small(2,1)] .
  have n: "frame_count start = Suc ((1056964608 - 4096 * k) div 4096)"
    using small(1) k by (simp add: frame_count_def kalloc_end_eq)
  then have i: "l - k + 1 < frame_count start" using kl lb by simp
  have nth: "pages_from start (frame_count start) ! (l - k) = a"
    "pages_from start (frame_count start) ! (l - k + 1) = a + 4096"
  proof -
    obtain d where d: "l = k + d" using kl le_Suc_ex by blast
    with al have "unat (of_nat d * 4096 :: u64) = d * 4096"
      by (simp add: unat_word_ariths unat_of_nat take_bit_nat_eq_self)
    with k l d al have "unat (start + of_nat d * 4096) = unat a" by (simp add: unat_word_ariths)
    then have "start + of_nat (l - k) * 4096 = a" by (simp add: d word_eq_iff_unsigned [where ?'a = nat])
    with i show "pages_from start (frame_count start) ! (l - k) = a"
      "pages_from start (frame_count start) ! (l - k + 1) = a + 4096"
      by (simp_all add: nth_pages_from algebra_simps)
  qed
  show ?thesis
    using free_list_nth [of "mem (kalloc_init start s)" _ "pages_from start (frame_count start)" "l - k"] fr i nth
    by (auto simp: frames_def)
qed



lemma machine_fields:
  fixes s s' :: "'d machine"
  assumes "kmem.more s' = kmem.more s"
  shows "dev s' = dev s" "core_timer s' = core_timer s" "rootfs s' = rootfs s" "masked s' = masked s"
    "vbar_el1 s' = vbar_el1 s" "spsr_el1 s' = spsr_el1 s" "sctlr_el1 s' = sctlr_el1 s"
  using assms by (cases s; cases s'; simp)+


lemma enable_vmem_sctlr: "((v OR 1) AND NOT (push_bit 2 1) AND NOT (push_bit 12 1)) AND 1 = (1 :: u64)"
  by (rule bit_eqI) (auto simp: bit_simps)

lemma access_kernel_space:
  assumes "translate (mem s) (ttbr0 s) = kernel_space kstart kend" "ttbr1 s = ttbr0 s" "sctlr_el1 s AND 1 = 1"
  shows "access translate s a = None \<longleftrightarrow> kernel_space kstart kend a = None"
  using assms by (simp add: access_def split: option.splits)

lemma access_other_fields [simp]:
  "access mmu (s\<lparr>vbar_el1 := v\<rparr>) = access mmu s" "access mmu (s\<lparr>masked := k\<rparr>) = access mmu s"
  "access mmu (s\<lparr>dev := d\<rparr>) = access mmu s"
  by (simp_all add: access_def fun_eq_iff)


lemma kalloc_init_frame_list:
  assumes "page_aligned kend" "kend \<noteq> 0" "kend \<le> 0x8000000"
  obtains fs where "frames (kalloc_init kend s) (kend # fs)" "\<And>f. f \<in> set (kend # fs) \<Longrightarrow> f < 0x1000000000"
    "225280 \<le> length fs" "pages_from kend (frame_count kend) = kend # fs"
proof -
  have le: "unat kend \<le> 134217728" using assms(3) by (simp add: word_le_nat_alt)
  then have less: "kend < kalloc_end" "kend + PageSize < kalloc_end"
    by (simp_all add: word_less_nat_alt kalloc_end_eq PageSize_def unat_word_ariths)
  define n where "n = (1056964608 - unat kend) div 4096"
  have fc: "frame_count kend = Suc n" using less(1) by (simp add: frame_count_def kalloc_end_eq n_def)
  have fr: "frames (kalloc_init kend s) (pages_from kend (Suc n))"
    using kalloc_init_frames [OF assms(1,2) less(2,1)] by (simp add: fc)
  have bd: "unat kend + 4096 * Suc n \<le> 1056968704" using le by (simp add: n_def)
  have "f < 0x1000000000" if "f \<in> set (pages_from kend (Suc n))" for f
  proof -
    have "unat kend + 4096 * Suc n \<le> 18446744073709551616" using bd by linarith
    from pages_from_bounds [OF this that] bd show ?thesis by (simp add: word_less_nat_alt)
  qed
  moreover have "225280 \<le> n" using le by (simp add: n_def)
  ultimately show ?thesis using fr by (intro that [of "pages_from (kend + 4096) n"]) (simp_all add: fc)
qed

lemma kernel_space_ramfs: "kend \<le> 0x8000000 \<Longrightarrow> kernel_space kstart kend RAMFS_START = None"
  by (auto simp: kernel_space_def page_of_def memory_map_defs)

lemma frame_not_in_kernel_space:
  assumes "page_aligned f" "kend \<le> f" "f < 0x3F000000"
  shows "kernel_space kstart kend f = None" "kernel_space kstart kend (VKERN_START + f) = None"
proof -
  have "unat f + 4096 * 0 < 281474976710656" using assms(3) by (simp add: word_less_nat_alt)
  from page_of_kernel_page(1) [OF assms(1) this] have v: "page_of (VKERN_START + f) = f" by simp
  have "unat (page_of f) = unat f"
    using assms(1,3) by (auto simp: unat_page_of word_less_nat_alt elim!: page_alignedE)
  then have "page_of f = f" by (simp add: word_eq_iff_unsigned [where ?'a = nat])
  with v assms(2,3) show "kernel_space kstart kend f = None" "kernel_space kstart kend (VKERN_START + f) = None"
    by (simp_all add: kernel_space_def not_le) (simp_all add: not_less)
qed

lemma page_of_low: "unat a < 281474976710656 \<Longrightarrow> unat (page_of a) = unat a div 4096 * 4096"
  by (simp add: unat_page_of)

lemma page_of_high:
  assumes "unat a < 281474976710656"
  shows "page_of (VKERN_START + a) = page_of a"
proof -
  have "unat (VKERN_START + a) = 18446462598732840960 + unat a"
    using assms unat_add_lem [of VKERN_START a] by (simp add: VKERN_START_def)
  then have "unat (VKERN_START + a) div 4096 = unat a div 4096 + 65535 * 68719476736" by simp
  then have "unat (VKERN_START + a) div 4096 mod 68719476736 = unat a div 4096 mod 68719476736"
    by (simp only: mod_mult_self1)
  then show ?thesis by (simp add: word_eq_iff_unsigned [where ?'a = nat] unat_page_of)
qed

text \<open>Every address of the image is mapped, at its physical and at its kernel address.\<close>

lemma kernel_space_image:
  assumes "page_aligned kstart" "page_aligned kend" "kend \<le> 0x8000000" "unat kstart \<le> unat a" "unat a < unat kend"
  shows "kernel_space kstart kend a \<noteq> None" "kernel_space kstart kend (VKERN_START + a) \<noteq> None"
proof -
  obtain k l where k: "unat kstart = 4096 * k" and l: "unat kend = 4096 * l"
    using assms(1,2) by (metis page_alignedE)
  have b: "unat a < 281474976710656" using assms(3,5) by (simp add: word_le_nat_alt)
  have "k \<le> unat a div 4096" using assms(4) k by (simp add: less_eq_div_iff_mult_less_eq)
  moreover have "unat a div 4096 < l" using assms(5) l by (simp add: less_mult_imp_div_less)
  ultimately have "kstart \<le> page_of a" "page_of a < kend"
    using k l by (simp_all add: word_le_nat_alt word_less_nat_alt page_of_low [OF b])
  then show "kernel_space kstart kend a \<noteq> None" "kernel_space kstart kend (VKERN_START + a) \<noteq> None"
    by (simp_all add: kernel_space_def page_of_high [OF b])
qed

lemma main_tables:
  assumes k: "page_aligned kstart" "kstart \<noteq> 0" "unat kend = unat kstart + 4096 * n" "kend \<le> 0x8000000"
    and junk: "junk1 \<noteq> -1" "junk2 \<noteq> -1"
  obtains s1 used rest where
    "make_kpagetable kstart kend junk1 junk2 (kalloc_init kend s) = Some (kend, s1)"
    "pages_from kend (frame_count kend) = kend # used @ rest" "rest \<noteq> []" "pt_wf s1 kend rest"
    "translate (mem s1) kend = kernel_space kstart kend" "kmem.more s1 = kmem.more s"
    "\<And>mmu va. arm_level0 mmu \<Longrightarrow> mmu (mem s1) kend va = None"
proof -
  have al: "page_aligned kend" using k(1,3) by (simp add: page_aligned_dvd)
  have nz: "kend \<noteq> 0" using k(2,3) by (auto simp: word_eq_iff_unsigned [where ?'a = nat])
  obtain fs where fs: "frames (kalloc_init kend s) (kend # fs)" "\<And>f. f \<in> set (kend # fs) \<Longrightarrow> f < 0x1000000000"
    "225280 \<le> length fs" "pages_from kend (frame_count kend) = kend # fs"
    using kalloc_init_frame_list [OF al nz k(4), of s] by blast
  have "4096 * n \<le> 134217728" using k(3,4) by (simp add: word_le_nat_alt)
  then have enough: "4 * n + 4 * 4096 < length fs" using fs(3) by simp
  have ke: "kend \<le> 0x3F000000" using k(4) by (simp add: word_le_nat_alt)
  obtain s1 used rest where
    s1: "make_kpagetable kstart kend junk1 junk2 (kalloc_init kend s) = Some (kend, s1)"
    "fs = used @ rest" "length used \<le> 4 * n + 4 * 4096" "pt_wf s1 kend rest"
    "translate (mem s1) kend = kernel_space kstart kend"
    by (rule make_kpagetable_space [OF fs(1,2) less_imp_le [OF enough] k(1,2,3) ke junk])
  have rest: "rest \<noteq> []" using s1(2,3) enough by auto
  have more: "kmem.more s1 = kmem.more s" using make_kpagetable_frame [OF s1(1)] by (simp add: kmem_frame)
  have hw: "mmu (mem s1) kend va = None" if "arm_level0 mmu" for mmu va
    using kpagetable_rejected [OF fs(1,2) s1(1) nz that] .
  show thesis by (rule that [OF s1(1)]) (use fs(4) s1 rest more hw in simp_all)
qed

text \<open>The run of \<^verbatim>\<open>main\<close> on core 0, for the tables as \<^verbatim>\<open>vmem.c\<close> reads them and as the hardware does.\<close>

lemma main_run:
  assumes k: "page_aligned kstart" "kstart \<noteq> 0" "unat kend = unat kstart + 4096 * n" "kend \<le> 0x8000000"
    and junk: "junk1 \<noteq> -1" "junk2 \<noteq> -1" and cpu: "get_cpu_id mpidr_el1 = 0"
    and image: "unat kstart + 8 \<le> unat test" "unat test + 8 < unat kend" "kstart \<le> lr" "lr < kend"
  obtains s' used rest where
    "main b translate vector test lr kend kstart kend junk1 junk2 mpidr_el1 s = Some (Inr (Faults RAMFS_START, s'))"
    "\<And>mmu. arm_level0 mmu \<Longrightarrow>
       main b mmu vector test lr kend kstart kend junk1 junk2 mpidr_el1 s = Some (Inr (Faults (test - 8), s'))"
    "pages_from kend (frame_count kend) = kend # used @ rest" "rest \<noteq> []" "frames s' rest"
    "translate (mem s') kend = kernel_space kstart kend"
    "ttbr0 s' = kend" "ttbr1 s' = kend" "sctlr_el1 s' AND 1 = 1" "tcr_el1 s' = TCR_CONFIG_DEFAULT"
    "mair_el1 s' = MAIR_CONFIG" "rootfs s' = rootfs s" "dev s' = dev s" "masked s' = masked s" "vbar_el1 s' = vbar_el1 s"
proof -
  obtain s1 used rest where s1: "make_kpagetable kstart kend junk1 junk2 (kalloc_init kend s) = Some (kend, s1)"
    "pages_from kend (frame_count kend) = kend # used @ rest" "rest \<noteq> []" "pt_wf s1 kend rest"
    "translate (mem s1) kend = kernel_space kstart kend" "kmem.more s1 = kmem.more s"
    "\<And>mmu va. arm_level0 mmu \<Longrightarrow> mmu (mem s1) kend va = None"
    using main_tables [OF k junk, of s] by blast
  have al: "page_aligned kend" using k(1,3) by (simp add: page_aligned_dvd)
  have nz: "kend \<noteq> 0" using k(2,3) by (auto simp: word_eq_iff_unsigned [where ?'a = nat])
  define s' where "s' = s1\<lparr>tcr_el1 := TCR_CONFIG_DEFAULT, mair_el1 := MAIR_CONFIG, ttbr0 := kend, ttbr1 := kend,
      sctlr_el1 := (sctlr_el1 s1 OR 1) AND NOT (push_bit 2 1) AND NOT (push_bit 12 1)\<rparr>"
  have "sctlr_el1 s' = (sctlr_el1 s1 OR 1) AND NOT (push_bit 2 1) AND NOT (push_bit 12 1)" unfolding s'_def by simp
  then have on: "sctlr_el1 s' AND 1 = 1" by (simp only: enable_vmem_sctlr)
  have tr: "access translate s' a = None \<longleftrightarrow> kernel_space kstart kend a = None" for a
    by (rule access_kernel_space [OF _ _ on]) (simp_all add: s'_def s1(5))
  have im: "unat (test - 8) = unat test - 8" "unat (test - 4) = unat test - 4" "unat (test + 4) = unat test + 4"
    "unat (test + 8) = unat test + 8"
    using image(1,2) unat64_less [of kend] by (simp_all add: unat_sub word_le_nat_alt unat_word_ariths)
  note in_image = kernel_space_image [OF k(1) al k(4)]
  have lr: "unat kstart \<le> unat lr" "unat lr < unat kend" using image(3,4) by (simp_all add: word_le_nat_alt word_less_nat_alt)
  have "first_fault translate s' [test - 8, test - 4, test, test + 4, test + 8, lr + VKERN_START] = None"
    using in_image(1) [of "test - 8"] in_image(1) [of "test - 4"] in_image(1) [of test] in_image(1) [of "test + 4"]
      in_image(1) [of "test + 8"] in_image(2) [OF lr] image(1,2) im
    by (simp add: first_fault_def tr add.commute [of lr])
  then have ev: "enable_vmem translate test lr kend s1 = (Inr (lr + VKERN_START), s')"
    by (simp add: enable_vmem_def Let_def s'_def)
  have "main b translate vector test lr kend kstart kend junk1 junk2 mpidr_el1 s = Some (Inr (Faults RAMFS_START, s'))"
    using s1(1) nz cpu kernel_space_ramfs [OF k(4)]
    by (simp add: main_def Let_def ev main_ramfs_def) (simp add: first_fault_def tr)
  moreover have "main b mmu vector test lr kend kstart kend junk1 junk2 mpidr_el1 s = Some (Inr (Faults (test - 8), s'))"
    if "arm_level0 mmu" for mmu
  proof -
    have "access mmu s' (test - 8) = None" using s1(7) [OF that] on by (simp add: access_def s'_def)
    then have "enable_vmem mmu test lr kend s1 = (Inl (test - 8), s')"
      by (simp add: enable_vmem_def Let_def first_fault_def s'_def)
    then show ?thesis using s1(1) nz cpu by (simp add: main_def Let_def)
  qed
  moreover have "frames s' rest" using s1(4) by (simp add: pt_wf_def frames_def s'_def)
  ultimately show thesis
    using s1(2,3,5) machine_fields [OF s1(6)] on by (intro that [of s' used rest]) (simp_all add: s'_def)
qed

lemma allocator_frame_bounds:
  assumes "page_aligned kend" "kend \<le> 0x8000000" "f \<in> set (pages_from kend (frame_count kend))"
  shows "page_aligned f" "kend \<le> f" "f < 0x3F000000 \<or> f = 0x3F000000"
proof -
  have le: "unat kend \<le> 134217728" using assms(2) by (simp add: word_le_nat_alt)
  then have fc: "frame_count kend = Suc ((1056964608 - unat kend) div 4096)"
    by (simp add: frame_count_def kalloc_end_eq word_less_nat_alt word_le_nat_alt)
  have "unat kend \<le> unat f \<and> unat f + 4096 \<le> unat kend + 4096 * frame_count kend"
    by (rule pages_from_bounds [OF _ assms(3)]) (use le fc in simp)
  moreover have "4096 * frame_count kend \<le> 1056964608 - unat kend + 4096" by (simp add: fc)
  ultimately show "kend \<le> f" "f < 0x3F000000 \<or> f = 0x3F000000"
    using le by (auto simp: word_le_nat_alt word_less_nat_alt word_eq_iff_unsigned [where ?'a = nat])
  show "page_aligned f" using aligned_pages_from [OF assms(1)] assms(3) by (auto simp: list_all_iff)
qed


section \<open>Properties\<close>

text \<open>C34: The allocator does not spare the archive: after \<^verbatim>\<open>kalloc_init\<close> from any aligned address up to
  \<^verbatim>\<open>0x8000000\<close>, where the archive is loaded, its first bytes are a link of the free list, so
  \<^verbatim>\<open>init_ramfs\<close> returns -1 and the file system stays as it was.\<close>

theorem kalloc_init_destroys_archive:
  assumes "page_aligned kalloc_start" "kalloc_start \<noteq> 0" "kalloc_start \<le> 0x8000000"
  shows "init_ramfs (kernel_view (mem (kalloc_init kalloc_start s))) fs = Some (Inr (-1, None, fs))"
proof (rule init_ramfs_bad_magic)
  let ?m = "mem (kalloc_init kalloc_start s)"
  have "load64 ?m 0x8000000 = 0x8000000 + 4096"
    by (rule kalloc_init_link) (use assms in \<open>simp_all add: page_aligned_def kalloc_end_eq\<close>)
  then have "?m 0x8000000 = 0" using load64_low_byte [of ?m "0x8000000"] by simp
  then have "kernel_view ?m RAMFS_START \<noteq> 0x30" by (simp add: kernel_view_def memory_map_defs)
  then show "\<not> bytes_at (kernel_view ?m) RAMFS_START MAGIC" by (simp add: MAGIC_def bytes_at_Cons)
qed

theorem kalloc_init_destroys_archive_witness:
  "init_ramfs (kernel_view (mem (kalloc_init 0x90000 \<lparr>mem = (\<lambda>a. sample_memory (a + VKERN_START)),
     page_frame_linked_list = 0\<rparr>))) empty_ramfs = Some (Inr (-1, None, empty_ramfs))"
  by (rule kalloc_init_destroys_archive) (simp_all add: page_aligned_def)

text \<open>C3: The boot of core 0, for a page-aligned kernel image that holds the code of \<^verbatim>\<open>enable_vmem\<close> and \<^verbatim>\<open>main\<close> and ends where the
  allocator starts, at or below \<^verbatim>\<open>0x8000000\<close>. \<^verbatim>\<open>main\<close> builds the free list and page tables whose translation, as \<^verbatim>\<open>vmem.c\<close> reads
  them, is \<open>kernel_space\<close>: the image and the devices at their kernel addresses. Their root is the first free frame, both
  translation registers hold it and the memory management unit is on. With a unit that reads the tables like \<^verbatim>\<open>vmem.c\<close>,
  \<^verbatim>\<open>main\<close> goes on at its kernel address and faults at \<^verbatim>\<open>RAMFS_START\<close>, the first byte \<^verbatim>\<open>init_ramfs\<close> reads, before the
  exception vector is set or anything is sent; with one that follows the architecture it faults at the first fetch
  after the unit is switched on, in the same state.\<close>

theorem main_stops_at_archive:
  assumes "page_aligned kstart" "kstart \<noteq> 0" "unat kend = unat kstart + 4096 * n" "kend \<le> 0x8000000"
    and "junk1 \<noteq> -1" "junk2 \<noteq> -1" "get_cpu_id mpidr_el1 = 0"
    and "unat kstart + 8 \<le> unat test" "unat test + 8 < unat kend" "kstart \<le> lr" "lr < kend"
  shows "\<exists>s'. main b translate vector test lr kend kstart kend junk1 junk2 mpidr_el1 s = Some (Inr (Faults RAMFS_START, s')) \<and>
    (\<forall>mmu. arm_level0 mmu \<longrightarrow>
       main b mmu vector test lr kend kstart kend junk1 junk2 mpidr_el1 s = Some (Inr (Faults (test - 8), s'))) \<and>
    translate (mem s') kend = kernel_space kstart kend \<and>
    ttbr0 s' = kend \<and> ttbr1 s' = kend \<and> sctlr_el1 s' AND 1 = 1 \<and> tcr_el1 s' = TCR_CONFIG_DEFAULT \<and>
    mair_el1 s' = MAIR_CONFIG \<and> rootfs s' = rootfs s \<and> dev s' = dev s \<and> masked s' = masked s \<and>
    vbar_el1 s' = vbar_el1 s"
  by (rule main_run [OF assms, of b vector s]) blast

theorem main_stops_at_archive_witness:
  "\<exists>s'. main sim_bus translate 0x80800 0x80100 0x80200 0x90000 0x80000 0x90000 0 0 0x80000000 boot_machine =
       Some (Inr (Faults RAMFS_START, s')) \<and>
     main sim_bus arm_walk 0x80800 0x80100 0x80200 0x90000 0x80000 0x90000 0 0 0x80000000 boot_machine =
       Some (Inr (Faults 0x800F8, s')) \<and>
     ttbr0 s' = 0x90000 \<and> fst (dev s') = []"
proof -
  have d: "fst (dev boot_machine) = []" by (simp add: boot_machine_def)
  have "\<exists>s'. main sim_bus translate 0x80800 0x80100 0x80200 0x90000 0x80000 0x90000 0 0 0x80000000 boot_machine =
       Some (Inr (Faults RAMFS_START, s')) \<and>
    (\<forall>mmu. arm_level0 mmu \<longrightarrow>
       main sim_bus mmu 0x80800 0x80100 0x80200 0x90000 0x80000 0x90000 0 0 0x80000000 boot_machine =
         Some (Inr (Faults (0x80100 - 8), s'))) \<and> ttbr0 s' = 0x90000 \<and> dev s' = dev boot_machine"
    using main_stops_at_archive [of "0x80000" "0x90000" 16 0 0 "0x80000000" "0x80100" "0x80200" sim_bus "0x80800" boot_machine]
    by (auto simp: page_aligned_def get_cpu_id_def)
  then show ?thesis using arm_walk_level0 d by auto
qed

text \<open>C12: The kernel cannot reach its own page frames: when \<^verbatim>\<open>main\<close> has switched to its tables, the free list is not
  empty and neither its frames nor the root of the page tables are mapped, at their physical address or at
  the kernel's address for it, except the frame at \<^verbatim>\<open>0x3F000000\<close>, which is the first page of the
  devices. So the next \<^verbatim>\<open>kalloc\<close>, and every change of the page tables, would use an unmapped address.\<close>

theorem frames_unmapped_after_boot:
  assumes "page_aligned kstart" "kstart \<noteq> 0" "unat kend = unat kstart + 4096 * n" "kend \<le> 0x8000000"
    and "junk1 \<noteq> -1" "junk2 \<noteq> -1" "get_cpu_id mpidr_el1 = 0"
    and "unat kstart + 8 \<le> unat test" "unat test + 8 < unat kend" "kstart \<le> lr" "lr < kend"
  shows "\<exists>e s' rest. main b translate vector test lr kend kstart kend junk1 junk2 mpidr_el1 s = Some (Inr (e, s')) \<and>
    frames s' rest \<and> rest \<noteq> [] \<and>
    list_all (\<lambda>f. f = 0x3F000000 \<or> access translate s' f = None \<and> access translate s' (VKERN_START + f) = None)
      (ttbr1 s' # rest)"
proof (rule main_run [OF assms, of b vector s])
  fix s' used rest
  assume m: "main b translate vector test lr kend kstart kend junk1 junk2 mpidr_el1 s = Some (Inr (Faults RAMFS_START, s'))"
    and fs: "pages_from kend (frame_count kend) = kend # used @ rest" and "rest \<noteq> []" "frames s' rest"
    and t: "translate (mem s') kend = kernel_space kstart kend" "ttbr0 s' = kend" "ttbr1 s' = kend" "sctlr_el1 s' AND 1 = 1"
  have al: "page_aligned kend" using assms(1,3) by (simp add: page_aligned_dvd)
  have f: "page_aligned f \<and> kend \<le> f \<and> (f < 0x3F000000 \<or> f = 0x3F000000)" if "f \<in> set (kend # rest)" for f
    using allocator_frame_bounds [OF al assms(4), of f] fs that by auto
  have a: "access translate s' v = None \<longleftrightarrow> kernel_space kstart kend v = None" for v
    by (rule access_kernel_space) (simp_all add: t)
  have "f = 0x3F000000 \<or> access translate s' f = None \<and> access translate s' (VKERN_START + f) = None"
    if "f \<in> set (ttbr1 s' # rest)" for f
    using frame_not_in_kernel_space [of f kend kstart] f [of f] that t(3) by (auto simp: a)
  with m \<open>rest \<noteq> []\<close> \<open>frames s' rest\<close> show ?thesis by (auto simp: list_all_iff)
qed

theorem frames_unmapped_after_boot_witness:
  "\<exists>e s' f rest. main sim_bus translate 0x80800 0x80100 0x80200 0x90000 0x80000 0x90000 0 0 0x80000000 boot_machine =
       Some (Inr (e, s')) \<and> frames s' (f # rest) \<and> (f = 0x3F000000 \<or> access translate s' f = None)"
proof -
  obtain e s' rest where
    "main sim_bus translate 0x80800 0x80100 0x80200 0x90000 0x80000 0x90000 0 0 0x80000000 boot_machine = Some (Inr (e, s'))"
    "frames s' rest" "rest \<noteq> []"
    "list_all (\<lambda>f. f = 0x3F000000 \<or> access translate s' f = None \<and> access translate s' (VKERN_START + f) = None)
      (ttbr1 s' # rest)"
    using frames_unmapped_after_boot [of "0x80000" "0x90000" 16 0 0 "0x80000000" "0x80100" "0x80200" sim_bus "0x80800" boot_machine]
    by (auto simp: page_aligned_def get_cpu_id_def)
  then show ?thesis by (cases rest) auto
qed



end
