(* ===== verification/Startup.thy ===== *)
theory Startup
  imports Memory_Map
begin

text \<open>
  The assembly of \<^verbatim>\<open>kernel/boot.S\<close> that runs before \<^verbatim>\<open>main\<close>. Core 0 enters at \<^verbatim>\<open>_start\<close> (\<open>start_first\<close>): it
  clears the \<^verbatim>\<open>.bss\<close> section, releases the other cores and goes on like them (\<open>start_other\<close>) at \<^verbatim>\<open>set_el1\<close>,
  which leaves EL2 for EL1, and \<^verbatim>\<open>set_stack\<close>, which gives the core its part of \<^verbatim>\<open>kernel_stack\<close>. The
  addresses of labels and linker symbols are arguments.
\<close>

record boot_core =
  bram :: memory
  hcr_el2 :: u64
  spsr_el2 :: u64
  elr_el2 :: u64
  boot_sp :: u64

text \<open>The loop at \<^verbatim>\<open>clear_bss\<close>, from \<^verbatim>\<open>x1\<close> with \<^verbatim>\<open>x2\<close> bytes to go; \<open>None\<close> when it never ends.\<close>

partial_function (option) clear_bss :: "u64 \<Rightarrow> u64 \<Rightarrow> memory \<Rightarrow> memory option" where
  "clear_bss x1 x2 m =
     (if x2 = 0 then Some m
      else (let m = store64 m x1 0; x1 = x1 + 16; x2 = x2 - 16
            in if x2 \<noteq> 0 then clear_bss x1 x2 m else Some m))"

declare clear_bss.simps [code]

definition start_cores :: "u64 \<Rightarrow> memory \<Rightarrow> memory" where
  "start_cores x0 m = store64 (store64 (store64 m 0xE0 x0) 0xE8 x0) 0xF0 x0"

definition set_el1 :: "u64 \<Rightarrow> boot_core \<Rightarrow> boot_core" where
  "set_el1 set_stack_addr s = s\<lparr>hcr_el2 := push_bit 31 1, spsr_el2 := 0x3c5, elr_el2 := set_stack_addr\<rparr>"

definition set_stack :: "u64 \<Rightarrow> u64 \<Rightarrow> boot_core \<Rightarrow> boot_core" where
  "set_stack kernel_stack mpidr_el1 s =
     (let x0 = mpidr_el1 AND 3; x0 = x0 + 1; x0 = push_bit 12 x0; x1 = kernel_stack + x0; x1 = x1 - 1
      in s\<lparr>boot_sp := x1\<rparr>)"

definition start_other :: "u64 \<Rightarrow> u64 \<Rightarrow> u64 \<Rightarrow> boot_core \<Rightarrow> boot_core" where
  "start_other set_stack_addr kernel_stack mpidr_el1 s =
     set_stack kernel_stack mpidr_el1 (set_el1 set_stack_addr s)"

definition start_first ::
  "u64 \<Rightarrow> u64 \<Rightarrow> u64 \<Rightarrow> u64 \<Rightarrow> u64 \<Rightarrow> u64 \<Rightarrow> boot_core \<Rightarrow> boot_core option" where
  "start_first bss_start bss_size set_el1_addr set_stack_addr kernel_stack mpidr_el1 s =
     (case clear_bss bss_start bss_size (bram s) of
        None \<Rightarrow> None
      | Some m \<Rightarrow>
          Some (start_other set_stack_addr kernel_stack mpidr_el1 (s\<lparr>bram := start_cores set_el1_addr m\<rparr>)))"

text \<open>
  \<open>half_cleared\<close>: the first eight bytes of every sixteen in the section are zero, the others as before.
  \<open>stack_of\<close> is the part of \<^verbatim>\<open>kernel_stack\<close> that belongs to a core.
\<close>

definition half_cleared :: "u64 \<Rightarrow> u64 \<Rightarrow> memory \<Rightarrow> memory" where
  "half_cleared x1 x2 m = (\<lambda>a. if a - x1 < x2 \<and> (a - x1) mod 16 < 8 then 0 else m a)"

definition stack_of :: "u64 \<Rightarrow> nat \<Rightarrow> nat set" where
  "stack_of kernel_stack core = {unat kernel_stack + 4096 * core..<unat kernel_stack + 4096 * core + 4096}"

section \<open>Lemmas\<close>

lemma clear_bss_step:
  "x2 \<noteq> 0 \<Longrightarrow> clear_bss x1 x2 m = clear_bss (x1 + 16) (x2 - 16) (store64 m x1 0)"
  by (subst clear_bss.simps) (simp add: Let_def clear_bss.simps [of _ 0])

lemma half_cleared_step:
  assumes "unat x2 = 16 * Suc n"
  shows "half_cleared (x1 + 16) (x2 - 16) (store64 m x1 0) = half_cleared x1 x2 m"
proof
  fix a :: u64
  define d where "d = a - x1"
  have a: "a - (x1 + 16) = d - 16" by (simp add: d_def)
  have x2: "unat (x2 - 16) = 16 * n" using assms by (simp add: unat_sub_if')
  have n: "16 * Suc n < 18446744073709551616" using unat64_less [of x2] assms by simp
  have st: "store64 m x1 0 a = (if unat d < 8 then 0 else m a)"
    by (simp add: store64_def d_def word_less_nat_alt)
  have m16: "unat (w mod 16) = unat w mod 16" for w :: u64 by (simp add: unat_mod)
  show "half_cleared (x1 + 16) (x2 - 16) (store64 m x1 0) a = half_cleared x1 x2 m a"
  proof (cases "unat d < 16")
    case True
    then have "unat (d - 16) = unat d + 18446744073709551616 - 16" by (simp add: unat_sub_if')
    with True n x2 assms show ?thesis
      by (simp add: half_cleared_def a st word_less_nat_alt m16 flip: d_def)
  next
    case False
    then have u: "unat (d - 16) = unat d - 16" by (simp add: unat_sub_if')
    have "unat (d - 16) < unat (x2 - 16) \<longleftrightarrow> unat d < unat x2" using False u x2 assms by auto
    moreover have "unat (d - 16) mod 16 = unat d mod 16"
      using False u by (metis le_mod_geq not_less)
    ultimately show ?thesis
      using False by (simp add: half_cleared_def a st word_less_nat_alt m16 flip: d_def)
  qed
qed

lemma clear_bss_multiple:
  "unat x2 = 16 * n \<Longrightarrow> clear_bss x1 x2 m = Some (half_cleared x1 x2 m)"
proof (induction n arbitrary: x1 x2 m)
  case 0
  then have "x2 = 0" by (simp add: word_eq_iff_unsigned [where ?'a = nat])
  then show ?case by (simp add: clear_bss.simps half_cleared_def)
next
  case (Suc n)
  then have "x2 \<noteq> 0" "unat (x2 - 16) = 16 * n" by (auto simp: unat_sub_if')
  then show ?case
    using Suc.IH [of "x2 - 16" "x1 + 16" "store64 m x1 0"] half_cleared_step [OF Suc.prems]
    by (simp add: clear_bss_step)
qed

lemma minus16_mod16: "(x2 - 16) mod 16 = (x2 :: u64) mod 16"
proof -
  have "unat (x2 - 16) mod 16 = unat x2 mod 16"
  proof (cases "unat x2 < 16")
    case True
    then have "unat (x2 - 16) = unat x2 + 1152921504606846975 * 16" by (simp add: unat_sub_if')
    then show ?thesis by (simp only: mod_mult_self1)
  next
    case False
    then show ?thesis by (simp add: unat_sub_if') (metis le_mod_geq not_less)
  qed
  then show ?thesis by (simp add: word_eq_iff_unsigned [where ?'a = nat] unat_mod)
qed

lemma clear_bss_returns_multiple:
  assumes "clear_bss x1 x2 m = Some m'"
  shows "x2 mod 16 = 0"
proof (rule clear_bss.raw_induct [where P = "\<lambda>x1 x2 m m'. x2 mod 16 = 0", OF _ assms])
  fix f :: "u64 \<Rightarrow> u64 \<Rightarrow> memory \<Rightarrow> memory option" and x1 x2 m m'
  assume IH: "\<And>x1 x2 m m'. f x1 x2 m = Some m' \<Longrightarrow> x2 mod 16 = 0"
    and eq: "(if x2 = 0 then Some m
      else (let m = store64 m x1 0; x1 = x1 + 16; x2 = x2 - 16 in if x2 \<noteq> 0 then f x1 x2 m else Some m)) = Some m'"
  then show "x2 mod 16 = 0"
    using minus16_mod16 [of x2] IH [of "x1 + 16" "x2 - 16"] by (auto simp: Let_def split: if_splits)
qed

lemma core_number: "unat (w AND 3 :: u64) < 4"
proof -
  have "w AND 3 = take_bit 2 w" by (simp add: take_bit_eq_mask mask_eq_exp_minus_1)
  then show ?thesis by (simp add: take_bit_eq_mod unat_mod)
qed

lemma stack_of_iff: "x \<in> stack_of k i \<longleftrightarrow> unat k \<le> x \<and> (x - unat k) div 4096 = i"
  by (auto simp: stack_of_def)

lemma unat_stack_pointer:
  assumes "unat kernel_stack + 4096 * NCPU < 18446744073709551616"
  shows "unat (boot_sp (set_stack kernel_stack mpidr_el1 s)) = unat kernel_stack + 4096 * unat (mpidr_el1 AND 3) + 4095"
proof -
  note c = core_number [of mpidr_el1]
  then have "unat ((mpidr_el1 AND 3) + 1) = unat (mpidr_el1 AND 3) + 1" by (simp add: unat_word_ariths)
  with c have "unat (push_bit 12 ((mpidr_el1 AND 3) + 1)) = 4096 * (unat (mpidr_el1 AND 3) + 1)"
    by (simp add: push_bit_eq_mult unat_word_ariths)
  with c assms have "unat (kernel_stack + push_bit 12 ((mpidr_el1 AND 3) + 1)) =
      unat kernel_stack + 4096 * (unat (mpidr_el1 AND 3) + 1)"
    by (simp add: unat_word_ariths NCPU_def)
  then show ?thesis by (simp add: set_stack_def Let_def unat_sub_if')
qed

section \<open>Properties\<close>

text \<open>C17: Clearing \<^verbatim>\<open>.bss\<close>: the loop returns exactly when the size is a multiple of 16 (the linker script
  aligns it so), and then it has zeroed only the first eight of every sixteen bytes: the store
  writes 8 bytes and the address advances by 16.\<close>

theorem clear_bss_clears_half:
  "clear_bss x1 x2 m = (if x2 mod 16 = 0 then Some (half_cleared x1 x2 m) else None)"
proof (cases "x2 mod 16 = 0")
  case True
  then have "unat x2 mod 16 = 0" by (simp add: word_eq_iff_unsigned [where ?'a = nat] unat_mod)
  then show ?thesis using True clear_bss_multiple by (metis mod_0_imp_dvd dvdE)
next
  case False
  then show ?thesis using clear_bss_returns_multiple [of x1 x2 m] by (cases "clear_bss x1 x2 m") auto
qed

text \<open>C18: Every core gets a stack pointer inside its own 4096 bytes of \<^verbatim>\<open>kernel_stack\<close>, the parts of different
  cores are disjoint, and all of them are inside the array. The pointer is not aligned to 16 bytes.\<close>

theorem stacks_disjoint:
  assumes "unat kernel_stack + 4096 * NCPU < 18446744073709551616" "kernel_stack mod 16 = 0"
  shows "unat (boot_sp (start_other set_stack_addr kernel_stack mpidr_el1 s)) \<in> stack_of kernel_stack (unat (mpidr_el1 AND 3)) \<and>
    unat (mpidr_el1 AND 3) < NCPU \<and>
    (\<forall>i j. i \<noteq> j \<longrightarrow> stack_of kernel_stack i \<inter> stack_of kernel_stack j = {}) \<and>
    (\<forall>i<NCPU. stack_of kernel_stack i \<subseteq> {unat kernel_stack..<unat kernel_stack + 4096 * NCPU}) \<and>
    unat (boot_sp (start_other set_stack_addr kernel_stack mpidr_el1 s)) mod 16 = 15"
proof -
  let ?c = "unat (mpidr_el1 AND 3)" and ?k = "unat kernel_stack"
  have sp: "unat (boot_sp (start_other set_stack_addr kernel_stack mpidr_el1 s)) = ?k + 4096 * ?c + 4095"
    using assms(1) by (simp add: start_other_def unat_stack_pointer)
  have "?k mod 16 = 0" using assms(2) by (simp add: word_eq_iff_unsigned [where ?'a = nat] unat_mod)
  then obtain q where "?k = 16 * q" by auto
  then have "?k + 4096 * ?c + 4095 = 15 + (q + 256 * ?c + 255) * 16" by simp
  then have "(?k + 4096 * ?c + 4095) mod 16 = 15 mod 16" by (simp only: mod_mult_self1)
  then have "(?k + 4096 * ?c + 4095) mod 16 = 15" by simp
  moreover have "?k + 4096 * ?c + 4095 \<in> stack_of kernel_stack ?c" by (simp add: stack_of_def)
  moreover have "stack_of kernel_stack i \<inter> stack_of kernel_stack j = {}" if "i \<noteq> j" for i j
    using that by (auto simp: stack_of_iff)
  moreover have "stack_of kernel_stack i \<subseteq> {?k..<?k + 4096 * NCPU}" if "i < NCPU" for i
    using that by (auto simp: stack_of_def NCPU_def)
  moreover have "?c < NCPU" using core_number [of mpidr_el1] by (simp add: NCPU_def)
  ultimately show ?thesis unfolding sp by blast
qed

theorem stacks_disjoint_witness:
  "boot_sp (start_other 0x80060 0x91000 0x80000002 \<lparr>bram = (\<lambda>_. 0), hcr_el2 = 0, spsr_el2 = 0, elr_el2 = 0, boot_sp = 0\<rparr>) = 0x93FFF \<and>
   unat (0x93FFF :: u64) \<in> stack_of 0x91000 2"
  using stacks_disjoint [of "0x91000" "0x80060" "0x80000002"
      "\<lparr>bram = (\<lambda>_. 0), hcr_el2 = 0, spsr_el2 = 0, elr_el2 = 0, boot_sp = 0\<rparr>"]
  by (simp add: NCPU_def start_other_def set_stack_def set_el1_def)

end
