(* ===== verification/Trap.thy ===== *)
theory Trap
  imports Prelude
begin

text \<open>
  Saving and restoring registers: \<^verbatim>\<open>uservec\<close> and \<^verbatim>\<open>userret\<close> of \<^verbatim>\<open>kernel/user_context.S\<close> for system calls,
  \<^verbatim>\<open>kernel_entry\<close> and \<^verbatim>\<open>kernel_exit\<close> of \<^verbatim>\<open>kernel/exception_vector.S\<close> for interrupts.

  The state has the registers \<^verbatim>\<open>x0\<close> to \<^verbatim>\<open>x30\<close>, the kernel stack pointer, \<^verbatim>\<open>tpidr_el1\<close> and the memory, in
  which the current process structure is at \<^verbatim>\<open>tpidr_el1\<close> with the address of its trap frame at
  offset 112. \<open>slot b i\<close> is the address of word \<open>i\<close> from \<open>b\<close>, so \<^verbatim>\<open>[b, 16 * k]\<close> is \<open>slot b (2 * k)\<close>.
  \<^verbatim>\<open>handle_syscall\<close> (\<^verbatim>\<open>kernel/exceptions.c\<close>) has its dispatch commented out and branches to \<^verbatim>\<open>userret\<close>. That branch is in the
  \<^verbatim>\<open>asm\<close> text of a C function, so the stack space the compiler reserves at the start of the function is never given
  back; how much that is depends on the compiler and is not part of the model, in which
  the function starts with its first statement. What \<open>handle_syscall\<close> shows of the stack pointer holds up to
  that space.
\<close>

section \<open>Machine and instructions\<close>

record cpu_state =
  xs :: "nat \<Rightarrow> u64"
  spr :: u64
  tpidr :: u64
  ram :: memory

definition stp :: "nat \<times> nat \<Rightarrow> u64 \<Rightarrow> u64 \<Rightarrow> cpu_state \<Rightarrow> cpu_state" where
  "stp ab base k s =
     s\<lparr>ram := store64 (store64 (ram s) (slot base (2 * k)) (xs s (fst ab))) (slot base (2 * k + 1)) (xs s (snd ab))\<rparr>"

definition str :: "nat \<Rightarrow> u64 \<Rightarrow> u64 \<Rightarrow> cpu_state \<Rightarrow> cpu_state" where
  "str a base k s = s\<lparr>ram := store64 (ram s) (slot base (2 * k)) (xs s a)\<rparr>"

definition ldp :: "nat \<times> nat \<Rightarrow> u64 \<Rightarrow> u64 \<Rightarrow> cpu_state \<Rightarrow> cpu_state" where
  "ldp ab base k s =
     s\<lparr>xs := (xs s)(fst ab := load64 (ram s) (slot base (2 * k)),
                    snd ab := load64 (ram s) (slot base (2 * k + 1)))\<rparr>"

definition ldr :: "nat \<Rightarrow> u64 \<Rightarrow> u64 \<Rightarrow> cpu_state \<Rightarrow> cpu_state" where
  "ldr a base k s = s\<lparr>xs := (xs s)(a := load64 (ram s) (slot base (2 * k)))\<rparr>"

definition mov :: "nat \<Rightarrow> u64 \<Rightarrow> cpu_state \<Rightarrow> cpu_state" where
  "mov a v s = s\<lparr>xs := (xs s)(a := v)\<rparr>"

definition add_sp :: "u64 \<Rightarrow> cpu_state \<Rightarrow> cpu_state" where
  "add_sp n s = s\<lparr>spr := spr s + n\<rparr>"

text \<open>A block of stores or loads relative to one base, in program order.\<close>

definition stps :: "((nat \<times> nat) \<times> u64) list \<Rightarrow> u64 \<Rightarrow> cpu_state \<Rightarrow> cpu_state" where
  "stps ps base s = fold (\<lambda>(ab, k). stp ab base k) ps s"

definition ldps :: "((nat \<times> nat) \<times> u64) list \<Rightarrow> u64 \<Rightarrow> cpu_state \<Rightarrow> cpu_state" where
  "ldps ps base s = fold (\<lambda>(ab, k). ldp ab base k) ps s"

section \<open>System calls\<close>

definition uservec_saves :: "((nat \<times> nat) \<times> u64) list" where
  "uservec_saves = [((2, 3), 1), ((4, 5), 2), ((6, 7), 3), ((8, 9), 4), ((10, 11), 5), ((12, 13), 6),
     ((14, 15), 7), ((16, 17), 8), ((18, 19), 9), ((20, 21), 9), ((22, 23), 10), ((24, 25), 11),
     ((26, 27), 12), ((28, 29), 13)]"

definition userret_loads :: "((nat \<times> nat) \<times> u64) list" where
  "userret_loads = [((2, 3), 1), ((4, 5), 2), ((6, 7), 3), ((8, 9), 4), ((10, 11), 5), ((12, 13), 6),
     ((14, 15), 7), ((16, 17), 8), ((18, 19), 8), ((20, 21), 9), ((22, 23), 10), ((24, 25), 11),
     ((26, 27), 12), ((28, 29), 13)]"

definition uservec :: "cpu_state \<Rightarrow> cpu_state" where
  "uservec s =
     (let s = add_sp (-16) s;
          s = stp (0, 1) (spr s) 0 s;
          s = mov 0 (tpidr s) s;
          s = mov 1 (load64 (ram s) (xs s 0 + 14 * 8)) s;
          s = stps uservec_saves (xs s 1) s;
          s = str 30 (xs s 1) 14 s;
          s = mov 3 (xs s 1) s;
          s = ldp (0, 1) (spr s) 0 s;
          s = add_sp 16 s;
          s = stp (0, 1) (xs s 3) 0 s
      in mov 0 (xs s 8) s)"

definition userret :: "cpu_state \<Rightarrow> cpu_state" where
  "userret s =
     (let s = mov 0 (tpidr s) s;
          s = mov 3 (load64 (ram s) (xs s 0 + 14 * 8)) s;
          s = ldp (0, 1) (xs s 3) 0 s;
          s = add_sp (-16) s;
          s = stp (0, 1) (spr s) 0 s;
          s = mov 1 (xs s 3) s;
          s = ldps userret_loads (xs s 1) s;
          s = ldr 30 (xs s 1) 14 s;
          s = ldp (0, 1) (spr s) 0 s
      in add_sp 16 s)"

definition handle_syscall :: "u64 \<Rightarrow> cpu_state \<Rightarrow> cpu_state" where
  "handle_syscall syscall_nr s = userret s"

definition syscall :: "cpu_state \<Rightarrow> cpu_state" where
  "syscall s = (let s = uservec s in handle_syscall (xs s 0) s)"

section \<open>Interrupts\<close>

definition frame_pairs :: "((nat \<times> nat) \<times> u64) list" where
  "frame_pairs = [((0, 1), 0), ((2, 3), 1), ((4, 5), 2), ((6, 7), 3), ((8, 9), 4), ((10, 11), 5), ((12, 13), 6),
     ((14, 15), 7), ((16, 17), 8), ((18, 19), 9), ((20, 21), 10), ((22, 23), 11), ((24, 25), 12),
     ((26, 27), 13), ((28, 29), 14)]"

definition kernel_entry :: "cpu_state \<Rightarrow> cpu_state" where
  "kernel_entry s =
     (let s = add_sp (-256) s; s = stps frame_pairs (spr s) s in str 30 (spr s) 15 s)"

definition kernel_exit :: "cpu_state \<Rightarrow> cpu_state" where
  "kernel_exit s =
     (let s = ldps frame_pairs (spr s) s; s = ldr 30 (spr s) 15 s in add_sp 256 s)"

text \<open>A state for evaluation: register \<open>i\<close> holds \<open>i\<close>, the process at \<^verbatim>\<open>0x5000\<close> has its trap frame at \<^verbatim>\<open>0x7000\<close>.\<close>

definition sample_trap :: cpu_state where
  "sample_trap = \<lparr>xs = of_nat, spr = 0x9000, tpidr = 0x5000, ram = store64 (\<lambda>_. 0) 0x5070 0x7000\<rparr>"

section \<open>Lemmas\<close>

lemmas insn_defs = stp_def str_def ldp_def ldr_def mov_def add_sp_def

text \<open>
  The words the two paths touch do not overlap: the stack words, the trap frame \<open>tf\<close> and the field
  of the process structure.
\<close>

definition trap_layout :: "u64 \<Rightarrow> cpu_state \<Rightarrow> bool" where
  "trap_layout tf s \<longleftrightarrow>
     load64 (ram s) (tpidr s + 112) = tf \<and>
     (\<forall>i<30. \<forall>j<2. \<not> overlap8 (slot (spr s - 16) j) (slot tf i)) \<and>
     (\<forall>i<30. \<not> overlap8 (slot tf i) (tpidr s + 112)) \<and>
     (\<forall>j<2. \<not> overlap8 (slot (spr s - 16) j) (tpidr s + 112))"

lemma trap_layoutD:
  assumes "trap_layout tf s"
  shows "load64 (ram s) (tpidr s + 112) = tf"
    "i < 30 \<Longrightarrow> j < 2 \<Longrightarrow> load64 (store64 m (slot (spr s - 16) j) v) (slot tf i) = load64 m (slot tf i)"
    "i < 30 \<Longrightarrow> j < 2 \<Longrightarrow> load64 (store64 m (slot tf i) v) (slot (spr s - 16) j) = load64 m (slot (spr s - 16) j)"
    "i < 30 \<Longrightarrow> load64 (store64 m (slot tf i) v) (tpidr s + 112) = load64 m (tpidr s + 112)"
    "j < 2 \<Longrightarrow> load64 (store64 m (slot (spr s - 16) j) v) (tpidr s + 112) = load64 m (tpidr s + 112)"
  using assms unfolding trap_layout_def
  by (auto intro!: load64_store64_other simp: overlap8_sym)

lemma upt31: "[0..<31] = [0, 1, 2, 3, 4, 5, 6, 7, 8, 9, 10, 11, 12, 13, 14, 15, 16, 17, 18, 19, 20, 21, 22, 23,
    24, 25, 26, 27, 28, 29, 30 :: nat]"
  by (simp add: upt_rec)

lemma kernel_entry_ram:
  assumes "r < 31"
  shows "load64 (ram (kernel_entry s)) (slot (spr s - 256) (of_nat r)) = xs s r"
proof -
  have "\<forall>r\<in>set [0..<31]. load64 (ram (kernel_entry s)) (slot (spr s - 256) (of_nat r)) = xs s r"
    unfolding upt31
    by (simp add: kernel_entry_def frame_pairs_def stps_def insn_defs Let_def load_slot_store_slot)
  with assms show ?thesis by simp
qed

lemma kernel_exit_regs:
  assumes "\<And>r. r < 31 \<Longrightarrow> load64 (ram t) (slot (spr t) (of_nat r)) = v r"
  shows "r < 31 \<Longrightarrow> xs (kernel_exit t) r = v r" "spr (kernel_exit t) = spr t + 256"
proof -
  have "map (xs (kernel_exit t)) [0..<31] = map (\<lambda>r. load64 (ram t) (slot (spr t) (of_nat r))) [0..<31]"
    unfolding upt31 by (simp add: kernel_exit_def frame_pairs_def ldps_def insn_defs Let_def)
  then show "r < 31 \<Longrightarrow> xs (kernel_exit t) r = v r" using assms by (simp add: list_eq_iff_nth_eq)
  show "spr (kernel_exit t) = spr t + 256"
    by (simp add: kernel_exit_def frame_pairs_def ldps_def insn_defs Let_def)
qed

text \<open>Where \<^verbatim>\<open>uservec\<close> puts the registers: word \<open>i\<close> of the trap frame holds register \<open>saved i\<close>.\<close>

definition saved :: "nat \<Rightarrow> nat" where
  "saved i = (if i < 18 then i else i + 2)"

lemma stps_words:
  assumes l: "trap_layout tf s" and r: "xs t = (xs s)(0 := a, 1 := tf)" and i: "2 \<le> i" "i < 29"
  shows "load64 (ram (str 30 tf 14 (stps uservec_saves tf t))) (slot tf (of_nat i)) = xs s (saved i)"
proof -
  have "\<forall>i\<in>set [0..<31]. 2 \<le> i \<and> i < 29 \<longrightarrow>
      load64 (ram (str 30 tf 14 (stps uservec_saves tf t))) (slot tf (of_nat i)) = xs s (saved i)"
    unfolding upt31
    by (simp add: uservec_saves_def stps_def insn_defs load_slot_store_slot r saved_def)
  with i show ?thesis by simp
qed

lemma stps_frame:
  "spr (stps uservec_saves b t) = spr t" "tpidr (stps uservec_saves b t) = tpidr t"
  "xs (stps uservec_saves b t) = xs t"
  by (simp_all add: uservec_saves_def stps_def insn_defs)

lemma stps_other:
  assumes "trap_layout tf s" "a = tpidr s + 112 \<or> a = slot (spr s - 16) 0 \<or> a = slot (spr s - 16) 1"
  shows "load64 (ram (str 30 tf 14 (stps uservec_saves tf t))) a = load64 (ram t) a"
  using trap_layoutD [OF assms(1)] assms(2)
  by (elim disjE; simp only:) (simp_all add: uservec_saves_def stps_def insn_defs)

text \<open>\<^verbatim>\<open>uservec\<close> up to the point where all but \<^verbatim>\<open>x0\<close> and \<^verbatim>\<open>x1\<close> are in the trap frame, and the rest of it.\<close>

definition uservec_spilled :: "u64 \<Rightarrow> cpu_state \<Rightarrow> cpu_state" where
  "uservec_spilled tf s = s\<lparr>spr := spr s - 16, xs := (xs s)(0 := tpidr s, 1 := tf),
    ram := store64 (store64 (ram s) (slot (spr s - 16) 0) (xs s 0)) (slot (spr s - 16) 1) (xs s 1)\<rparr>"

definition uservec_saved :: "u64 \<Rightarrow> cpu_state \<Rightarrow> cpu_state" where
  "uservec_saved tf s = str 30 tf 14 (stps uservec_saves tf (uservec_spilled tf s))"

lemma uservec_saved_regs:
  "xs (uservec_saved tf s) = (xs s)(0 := tpidr s, 1 := tf)" "spr (uservec_saved tf s) = spr s - 16"
  "tpidr (uservec_saved tf s) = tpidr s"
  by (simp_all add: uservec_saved_def str_def stps_frame) (simp_all add: uservec_spilled_def)

lemma uservec_saved_loads:
  assumes l: "trap_layout tf s"
  shows "load64 (ram (uservec_saved tf s)) (tpidr s + 112) = tf"
    "load64 (ram (uservec_saved tf s)) (slot (spr s - 16) 0) = xs s 0"
    "load64 (ram (uservec_saved tf s)) (slot (spr s - 16) 1) = xs s 1"
proof -
  have "load64 (ram (uservec_spilled tf s)) (tpidr s + 112) = tf"
    "load64 (ram (uservec_spilled tf s)) (slot (spr s - 16) 0) = xs s 0"
    "load64 (ram (uservec_spilled tf s)) (slot (spr s - 16) 1) = xs s 1"
    using trap_layoutD [OF l] by (simp_all add: uservec_spilled_def load_slot_store_slot)
  then show "load64 (ram (uservec_saved tf s)) (tpidr s + 112) = tf"
    "load64 (ram (uservec_saved tf s)) (slot (spr s - 16) 0) = xs s 0"
    "load64 (ram (uservec_saved tf s)) (slot (spr s - 16) 1) = xs s 1"
    unfolding uservec_saved_def using stps_other [OF l] by auto
qed

lemma uservec_eq:
  assumes l: "trap_layout tf s"
  shows "uservec s = mov 0 (xs s 8) (stp (0, 1) tf 0 ((uservec_saved tf s)
    \<lparr>spr := spr s, xs := (xs (uservec_saved tf s))(3 := tf, 0 := xs s 0, 1 := xs s 1)\<rparr>))"
proof -
  let ?t = "stps uservec_saves tf (uservec_spilled tf s)"
  have x: "xs (uservec_spilled tf s) = (xs s)(0 := tpidr s, 1 := tf)" by (simp add: uservec_spilled_def)
  have "load64 (store64 (store64 (ram s) (slot (spr s - 16) 0) (xs s 0)) (slot (spr s - 16) 1) (xs s 1))
      (tpidr s + 112) = tf"
    using trap_layoutD [OF l] by simp
  moreover have "mov 1 tf (mov 0 (tpidr s) (stp (0, 1) (spr s - 16) 0 (add_sp (-16) s))) = uservec_spilled tf s"
    by (simp add: insn_defs uservec_spilled_def)
  moreover have u: "uservec_saved tf s = ?t\<lparr>ram := store64 (ram ?t) (slot tf 28) (xs s 30)\<rparr>"
    by (simp add: uservec_saved_def str_def stps_frame x)
  ultimately show ?thesis
    using uservec_saved_loads(2,3) [OF l, unfolded u] x
    by (simp add: uservec_def Let_def insn_defs u stps_frame)
qed

lemma uservec_words:
  assumes l: "trap_layout tf s"
  shows "i < 29 \<Longrightarrow> load64 (ram (uservec s)) (slot tf (of_nat i)) = xs s (saved i)"
    "load64 (ram (uservec s)) (tpidr s + 112) = tf"
    "spr (uservec s) = spr s" "tpidr (uservec s) = tpidr s" "xs (uservec s) 0 = xs s 8"
proof -
  let ?u = "uservec_saved tf s"
  have r: "ram (uservec s) = store64 (store64 (ram ?u) (slot tf 0) (xs s 0)) (slot tf 1) (xs s 1)"
    "spr (uservec s) = spr s" "tpidr (uservec s) = tpidr s"
    using uservec_eq [OF l] uservec_saved_regs by (simp_all add: insn_defs)
  then show "spr (uservec s) = spr s" "tpidr (uservec s) = tpidr s" by simp_all
  show "xs (uservec s) 0 = xs s 8" by (simp add: uservec_eq [OF l] mov_def)
  show "load64 (ram (uservec s)) (tpidr s + 112) = tf"
    using r uservec_saved_loads(1) [OF l] trap_layoutD [OF l] by simp
  show "load64 (ram (uservec s)) (slot tf (of_nat i)) = xs s (saved i)" if "i < 29"
  proof (cases "i < 2")
    case True
    then have "i = 0 \<or> i = 1" by arith
    then show ?thesis using r by (auto simp: load_slot_store_slot saved_def)
  next
    case False
    have "(of_nat i :: u64) < 512" "(of_nat i :: u64) \<noteq> 0" "(of_nat i :: u64) \<noteq> 1"
      using that False by (simp_all add: word_less_nat_alt word_eq_iff_unsigned [where ?'a = nat] unat_of_nat
          take_bit_nat_eq_self)
    then show ?thesis
      using stps_words [OF l, of "uservec_spilled tf s" "tpidr s" i] that False
      by (simp add: r load_slot_store_slot uservec_saved_def uservec_spilled_def)
  qed
qed

definition loaded_from :: "nat \<Rightarrow> nat" where
  "loaded_from r = (if r < 18 then r else r - 2)"

lemma userret_regs:
  assumes l: "trap_layout tf t"
  shows "map (xs (userret t)) [0..<31] = map (\<lambda>r. load64 (ram t) (slot tf (of_nat (loaded_from r)))) [0..<31]"
    "spr (userret t) = spr t"
proof -
  note L = trap_layoutD [OF l]
  show "map (xs (userret t)) [0..<31] = map (\<lambda>r. load64 (ram t) (slot tf (of_nat (loaded_from r)))) [0..<31]"
    unfolding upt31 using L
    by (simp add: userret_def userret_loads_def ldps_def insn_defs Let_def load_slot_store_slot loaded_from_def)
  show "spr (userret t) = spr t"
    by (simp add: userret_def userret_loads_def ldps_def insn_defs Let_def)
qed

lemma syscall_registers:
  assumes "trap_layout tf s"
  shows "map (xs (syscall s)) [0..<31] = map (xs s) ([0..<18] @ [16, 17] @ [20..<31]) \<and> spr (syscall s) = spr s"
proof -
  note W = uservec_words [OF assms]
  have l: "trap_layout tf (uservec s)" using assms W by (simp add: trap_layout_def)
  have regs: "map (xs (syscall s)) [0..<31] = map (\<lambda>r. load64 (ram (uservec s)) (slot tf (of_nat (loaded_from r)))) [0..<31]"
    "spr (syscall s) = spr s"
    using userret_regs [OF l] W(3) by (simp_all add: syscall_def handle_syscall_def Let_def)
  have "load64 (ram (uservec s)) (slot tf (of_nat (loaded_from r))) = xs s (saved (loaded_from r))" if "r < 31" for r
    using that by (intro W(1)) (auto simp: loaded_from_def)
  then have "map (\<lambda>r. load64 (ram (uservec s)) (slot tf (of_nat (loaded_from r)))) [0..<31] =
      map (\<lambda>r. xs s (saved (loaded_from r))) [0..<31]" by (intro map_cong) auto
  also have "\<dots> = map (xs s) (map (\<lambda>r. saved (loaded_from r)) [0..<31])" by (simp only: map_map comp_def)
  also have "map (\<lambda>r. saved (loaded_from r)) [0..<31] = [0..<18] @ [16, 17] @ [20..<31]" by code_simp
  finally show ?thesis using regs by simp
qed

lemma sample_trap_layout: "trap_layout 0x7000 sample_trap"
proof -
  have far: "unat (slot 0x7000 i) = 0x7000 + 8 * unat i \<and> unat (slot 0x8FF0 j) = 0x8FF0 + 8 * unat j \<and> unat i < 30 \<and> unat j < 2"
    if "i < 30" "j < 2" for i j :: u64
  proof -
    have b: "unat i < 30" "unat j < 2" using that by (simp_all add: word_less_nat_alt)
    then show ?thesis by (simp add: slot_def unat_word_ariths)
  qed
  show ?thesis
    unfolding trap_layout_def sample_trap_def
  proof (intro conjI allI impI)
    let ?s = "\<lparr>xs = of_nat, spr = 0x9000, tpidr = 0x5000, ram = store64 (\<lambda>_. 0) 0x5070 0x7000\<rparr>"
    fix i :: u64 assume "i < 30"
    then show "\<not> overlap8 (slot 0x7000 i) (tpidr ?s + 112)"
      using far [of i 0] by (intro no_overlap8(2)) simp_all
    show "\<not> overlap8 (slot (spr ?s - 16) j) (slot 0x7000 i)" if "j < 2" for j
      using far [OF \<open>i < 30\<close> that] by (intro no_overlap8(2)) simp_all
  next
    let ?s = "\<lparr>xs = of_nat, spr = 0x9000, tpidr = 0x5000, ram = store64 (\<lambda>_. 0) 0x5070 0x7000\<rparr>"
    fix j :: u64 assume "j < 2"
    then show "\<not> overlap8 (slot (spr ?s - 16) j) (tpidr ?s + 112)"
      using far [of 0 j] by (intro no_overlap8(2)) simp_all
  qed simp
qed

section \<open>Properties\<close>

text \<open>Interrupt entry and exit are inverse: whatever the handler does to the registers, if it restores the
  stack pointer and leaves the 31 saved words alone, \<^verbatim>\<open>kernel_exit\<close> brings back all registers \<^verbatim>\<open>x0\<close> to
  \<^verbatim>\<open>x30\<close> and the stack pointer of before \<^verbatim>\<open>kernel_entry\<close>.\<close>

theorem kernel_entry_exit_roundtrip:
  assumes "spr t = spr (kernel_entry s)"
    and "\<forall>r<31. load64 (ram t) (slot (spr t) (of_nat r)) = load64 (ram (kernel_entry s)) (slot (spr t) (of_nat r))"
  shows "(\<forall>r<31. xs (kernel_exit t) r = xs s r) \<and> spr (kernel_exit t) = spr s"
proof -
  have sp: "spr t = spr s - 256"
    using assms(1) by (simp add: kernel_entry_def frame_pairs_def stps_def insn_defs Let_def)
  then have "load64 (ram t) (slot (spr t) (of_nat r)) = xs s r" if "r < 31" for r
    using assms(2) kernel_entry_ram [of r s] that by simp
  from kernel_exit_regs [OF this] sp show ?thesis by simp
qed

theorem kernel_entry_exit_roundtrip_witness:
  "xs (kernel_exit ((kernel_entry \<lparr>xs = of_nat, spr = 0x9000, tpidr = 0, ram = (\<lambda>_. 7)\<rparr>)\<lparr>xs := \<lambda>_. 0\<rparr>)) 19 = 19"
  using kernel_entry_exit_roundtrip [of "(kernel_entry \<lparr>xs = of_nat, spr = 0x9000, tpidr = 0, ram = (\<lambda>_. 7)\<rparr>)\<lparr>xs := \<lambda>_. 0\<rparr>"
      "\<lparr>xs = of_nat, spr = 0x9000, tpidr = 0, ram = (\<lambda>_. 7)\<rparr>"] by simp

text \<open>C35: A system call returns to user mode with every register as it was except two: \<^verbatim>\<open>uservec\<close> overwrites the
  saved \<^verbatim>\<open>x18\<close> and \<^verbatim>\<open>x19\<close>, and \<^verbatim>\<open>userret\<close> loads into them the values of \<^verbatim>\<open>x16\<close> and \<^verbatim>\<open>x17\<close>.\<close>

theorem syscall_restores_registers:
  assumes "trap_layout tf s"
  shows "map (xs (syscall s)) [0..<31] = map (xs s) ([0..<18] @ [16, 17] @ [20..<31]) \<and> spr (syscall s) = spr s"
  using assms by (rule syscall_registers)

theorem syscall_restores_registers_witness: "xs (syscall sample_trap) 19 = 17"
proof -
  from conjunct1 [OF syscall_restores_registers [OF sample_trap_layout]]
  have "map (xs (syscall sample_trap)) [0..<31] ! 19 = map (xs sample_trap) ([0..<18] @ [16, 17] @ [20..<31]) ! 19"
    by (rule arg_cong)
  then show ?thesis by (simp add: nth_append) (simp add: sample_trap_def)
qed

end
