(* ===== verification/Vectors.thy ===== *)
theory Vectors
  imports Trap Uart
begin

text \<open>
  The exception vector table of \<^verbatim>\<open>kernel/exception_vector.S\<close>, which ties the register saves of Trap to the
  handlers of \<^verbatim>\<open>kernel/exceptions.c\<close>. The hardware enters the table at entry \<open>4 * state + type\<close>, with states
  EL1t, EL1h, EL0_64, EL0_32 and types synchronous, IRQ, FIQ, SError.

  \<open>take_exception\<close> is one exception from entry to \<^verbatim>\<open>eret\<close>, on the core, its timer and the devices. The C
  handlers are those of Uart; what their compiled code does to registers and stack is the argument
  \<open>body\<close>, and \<open>aapcs\<close> is the rule of the procedure call standard it relies on: a function returns with
  the stack pointer it was called with and leaves its caller's frame alone.
\<close>

datatype ventry = handle_invalid_entry u64 u64 | call_handle_irq | branch_uservec

definition vector_table :: "ventry list" where
  "vector_table =
    [handle_invalid_entry 0 0, handle_invalid_entry 0 1, handle_invalid_entry 0 2, handle_invalid_entry 0 3,
     handle_invalid_entry 1 0, call_handle_irq, handle_invalid_entry 1 2, handle_invalid_entry 1 3,
     branch_uservec, call_handle_irq, handle_invalid_entry 2 2, handle_invalid_entry 2 3,
     handle_invalid_entry 3 0, handle_invalid_entry 3 1, handle_invalid_entry 3 2, handle_invalid_entry 3 3]"

record fault_regs =
  esr_el1 :: u64
  elr_el1 :: u64
  spsr_el1 :: u64
  far_el1 :: u64

definition report_args :: "u64 \<Rightarrow> u64 \<Rightarrow> fault_regs \<Rightarrow> cpu_state \<Rightarrow> cpu_state" where
  "report_args st ty f s =
     mov 5 (far_el1 f) (mov 4 (spsr_el1 f) (mov 3 (elr_el1 f) (mov 2 (esr_el1 f) (mov 1 ty (mov 0 st s)))))"

definition take_exception ::
  "'d bus \<Rightarrow> u64 \<Rightarrow> u8 \<Rightarrow> (cpu_state \<Rightarrow> cpu_state) \<Rightarrow> nat \<Rightarrow> fault_regs \<Rightarrow>
   cpu_state \<times> timer \<times> 'd \<Rightarrow> (cpu_state \<times> timer \<times> 'd) option" where
  "take_exception b junk cpu_id body n f =
     (\<lambda>(s, t, d). case vector_table ! n of
        handle_invalid_entry st ty \<Rightarrow>
          (let s = report_args st ty f (kernel_entry s)
           in case exception_handler b (xs s 0) (xs s 1) (xs s 2) d of
                None \<Rightarrow> None
              | Some d \<Rightarrow> Some (kernel_exit (body s), t, d))
      | call_handle_irq \<Rightarrow>
          (let s = kernel_entry s
           in case handle_irq b junk cpu_id (t, d) of
                None \<Rightarrow> None
              | Some (t, d) \<Rightarrow> Some (kernel_exit (body s), t, d))
      | branch_uservec \<Rightarrow> Some (syscall s, t, d))"

definition aapcs :: "(cpu_state \<Rightarrow> cpu_state) \<Rightarrow> bool" where
  "aapcs body \<longleftrightarrow>
     (\<forall>s. spr (body s) = spr s \<and> (\<forall>a. a - spr s < 256 \<longrightarrow> ram (body s) a = ram s a))"

text \<open>A handler body for evaluation: it clobbers the caller-saved registers and writes below the stack pointer.\<close>

definition scratch_body :: "cpu_state \<Rightarrow> cpu_state" where
  "scratch_body s = s\<lparr>xs := (\<lambda>r. if r < 19 then 7 else xs s r), ram := store64 (ram s) (spr s - 16) 99\<rparr>"

section \<open>Lemmas\<close>

lemma handle_irq_returns:
  assumes "mini_uart b out inp busy"
  shows "\<exists>t' d'. handle_irq b junk cpu_id (t, d) = Some (t', d')"
proof -
  obtain p d1 where p: "uart_pending b d = (p, d1)" by fastforce
  obtain d2 where "uart_interrupt b d1 = Some d2" using uart_interrupt_stream [OF assms] by blast
  with p show ?thesis by (auto simp: handle_irq_def Let_def split: prod.splits)
qed

lemma aapcs_frame:
  assumes "aapcs body" "r < 31"
  shows "load64 (ram (body s)) (slot (spr s) (of_nat r)) = load64 (ram s) (slot (spr s) (of_nat r))"
proof (rule load64_cong)
  fix k :: u64 assume "k < 8"
  then have k: "unat k < 8" by (simp add: word_less_nat_alt)
  have "unat (8 * of_nat r + k :: u64) = 8 * r + unat k"
    using assms(2) k by (simp add: unat_word_ariths unat_of_nat take_bit_nat_eq_self)
  then have "slot (spr s) (of_nat r) + k - spr s < 256"
    using assms(2) k by (simp add: slot_def word_less_nat_alt)
  then show "ram (body s) (slot (spr s) (of_nat r) + k) = ram s (slot (spr s) (of_nat r) + k)"
    using assms(1) by (simp add: aapcs_def)
qed

lemma report_args_frame [simp]:
  "spr (report_args st ty f s) = spr s" "ram (report_args st ty f s) = ram s"
  "xs (report_args st ty f s) 0 = st" "xs (report_args st ty f s) (Suc 0) = ty" "xs (report_args st ty f s) 2 = esr_el1 f"
  by (simp_all add: report_args_def mov_def)

lemma handler_transparent:
  assumes "aapcs body" "spr u = spr (kernel_entry s)" "ram u = ram (kernel_entry s)"
  shows "(\<forall>r<31. xs (kernel_exit (body u)) r = xs s r) \<and> spr (kernel_exit (body u)) = spr s"
proof (rule kernel_entry_exit_roundtrip)
  show sp: "spr (body u) = spr (kernel_entry s)" using assms(1,2) by (simp add: aapcs_def)
  then show "\<forall>r<31. load64 (ram (body u)) (slot (spr (body u)) (of_nat r)) =
      load64 (ram (kernel_entry s)) (slot (spr (body u)) (of_nat r))"
    using aapcs_frame [OF assms(1), of _ u] assms(2,3) by simp
qed

lemma vector_table_nth:
  assumes "n < 16"
  shows "vector_table ! n =
    (if n = 5 \<or> n = 9 then call_handle_irq else if n = 8 then branch_uservec
     else handle_invalid_entry (of_nat (n div 4)) (of_nat (n mod 4)))"
proof -
  have "\<forall>n\<in>set [0..<16]. vector_table ! n =
    (if n = 5 \<or> n = 9 then call_handle_irq else if n = 8 then branch_uservec
     else handle_invalid_entry (of_nat (n div 4)) (of_nat (n mod 4)))"
    by (simp add: vector_table_def upt_rec)
  with assms show ?thesis by simp
qed

section \<open>Properties\<close>

text \<open>C9: Every exception but the system call is transparent to the interrupted program: it returns with all
  registers \<^verbatim>\<open>x0\<close> to \<^verbatim>\<open>x30\<close> and the stack pointer as they were. Interrupts taken in EL1h and in 64-bit EL0
  run \<^verbatim>\<open>handle_irq\<close>; every other entry prints the report for the state and the type of its own
  position in the table and returns to the interrupted instruction.\<close>

theorem exceptions_transparent:
  assumes "n < 16" "n \<noteq> 8" "aapcs body" "mini_uart b out inp busy"
  shows "\<exists>s' t' d'. take_exception b junk cpu_id body n f (s, t, d) = Some (s', t', d') \<and>
    (\<forall>r<31. xs s' r = xs s r) \<and> spr s' = spr s \<and>
    (if n = 5 \<or> n = 9 then handle_irq b junk cpu_id (t, d) = Some (t', d')
     else t' = t \<and> inp d' = inp d \<and>
       out d' = out d @ concat (map (map of_char) (exception_strings (of_nat (n div 4)) (of_nat (n mod 4)) (esr_el1 f))))"
proof (cases "n = 5 \<or> n = 9")
  case True
  obtain t' d' where "handle_irq b junk cpu_id (t, d) = Some (t', d')"
    using handle_irq_returns [OF assms(4)] by blast
  with True handler_transparent [OF assms(3) refl refl, of s] show ?thesis
    using assms(1) by (auto simp: take_exception_def vector_table_nth Let_def)
next
  case False
  let ?u = "report_args (of_nat (n div 4)) (of_nat (n mod 4)) f (kernel_entry s)"
  obtain d' where d': "exception_handler b (of_nat (n div 4)) (of_nat (n mod 4)) (esr_el1 f) d = Some d'"
    "inp d' = inp d"
    "out d' = out d @ concat (map (map of_char) (exception_strings (of_nat (n div 4)) (of_nat (n mod 4)) (esr_el1 f)))"
    using exception_handler_sends_report [OF assms(4)] by blast
  have "take_exception b junk cpu_id body n f (s, t, d) = Some (kernel_exit (body ?u), t, d')"
    using False assms(1,2) d'(1) by (simp add: take_exception_def vector_table_nth Let_def)
  moreover have "(\<forall>r<31. xs (kernel_exit (body ?u)) r = xs s r) \<and> spr (kernel_exit (body ?u)) = spr s"
    by (rule handler_transparent [OF assms(3)]) simp_all
  ultimately show ?thesis using False d'(2,3) by simp
qed

lemma scratch_body_aapcs: "aapcs scratch_body"
proof -
  have "\<not> a - (p - 16) < 8" if "a - p < 256" for a p :: u64
  proof -
    have "a - (p - 16) = (a - p) + 16" by simp
    moreover have "unat ((a - p) + 16) = unat (a - p) + 16" using that by (simp add: word_less_nat_alt unat_word_ariths)
    ultimately have "unat (a - (p - 16)) = unat (a - p) + 16" by (simp only:)
    then show ?thesis by (simp add: word_less_nat_alt)
  qed
  then show ?thesis by (simp add: aapcs_def scratch_body_def store64_outside)
qed

theorem exceptions_transparent_witness:
  "\<exists>s' t' d'. take_exception sim_bus 0 0 scratch_body 4 \<lparr>esr_el1 = 0x96000007, elr_el1 = 0, spsr_el1 = 0, far_el1 = 0\<rparr>
       (\<lparr>xs = of_nat, spr = 0x9000, tpidr = 0, ram = (\<lambda>_. 7)\<rparr>,
        \<lparr>cntfrq_el0 = 19200000, cntp_ctl_el0 = 1, cntp_tval_el0 = 0\<rparr>, [], []) = Some (s', t', d') \<and>
     xs s' 3 = 3 \<and> fst d' = map of_char (''EL1H:'' @ tab @ ''Synchronous:'' @ newline @ ''Data abort, same EL'' @ newline @
      '', Translation fault at level 3'' @ newline)"
  using exceptions_transparent [OF _ _ scratch_body_aapcs sim_bus_mini_uart, of 4 0 0
      "\<lparr>esr_el1 = 0x96000007, elr_el1 = 0, spsr_el1 = 0, far_el1 = 0\<rparr>" "\<lparr>xs = of_nat, spr = 0x9000, tpidr = 0, ram = (\<lambda>_. 7)\<rparr>"
      "\<lparr>cntfrq_el0 = 19200000, cntp_ctl_el0 = 1, cntp_tval_el0 = 0\<rparr>" "([], [])"]
  by (simp add: exception_strings_def state_text_def type_text_def class_text_def fault_text_def level_text_def
      tab_def newline_def split: prod.splits) auto

end
