(* ===== verification/Libc.thy ===== *)
theory Libc
  imports Trap
begin

text \<open>
  The user side: the system-call functions of \<^verbatim>\<open>user/libc.c\<close> with the enumeration of \<^verbatim>\<open>user/libc.h\<close>, and the
  program \<^verbatim>\<open>user/init.c\<close>.

  Each function of \<^verbatim>\<open>libc.c\<close> is one \<^verbatim>\<open>asm\<close> statement: its instructions, the parameters it names as input
  operands, and its clobbered registers. The compiler chooses a register for every operand and
  loads it before the instructions; the choice is the argument \<open>regs\<close>, and \<open>allocation\<close> is what the
  compiler promises about it: one register for each operand, none of them clobbered. \<^verbatim>\<open>svc\<close> runs the kernel
  path of Trap. \<open>run_libc\<close> also gives the numbers \<^verbatim>\<open>handle_syscall\<close> was called with, and whether the function
  left by the \<^verbatim>\<open>ret\<close> in its \<^verbatim>\<open>asm\<close> text, which skips what the compiler does at the end of a function.
\<close>

section \<open>System-call functions\<close>

datatype SYSCALL_TABLE = OPEN | READ | WRITE | CLOSE | FORK | EXECVE | WAIT | SLEEP | EXIT | MMAP | MUNMAP

definition syscall_table :: "SYSCALL_TABLE list" where
  "syscall_table = [OPEN, READ, WRITE, CLOSE, FORK, EXECVE, WAIT, SLEEP, EXIT, MMAP, MUNMAP]"

text \<open>The table lists every constant of the enumeration once.\<close>

instantiation SYSCALL_TABLE :: enum
begin

definition enum_SYSCALL_TABLE :: "SYSCALL_TABLE list" where
  "enum_SYSCALL_TABLE = syscall_table"

definition enum_all_SYSCALL_TABLE :: "(SYSCALL_TABLE \<Rightarrow> bool) \<Rightarrow> bool" where
  "enum_all_SYSCALL_TABLE P = list_all P syscall_table"

definition enum_ex_SYSCALL_TABLE :: "(SYSCALL_TABLE \<Rightarrow> bool) \<Rightarrow> bool" where
  "enum_ex_SYSCALL_TABLE P = list_ex P syscall_table"

instance
proof
  have all: "(UNIV :: SYSCALL_TABLE set) = set syscall_table"
    using SYSCALL_TABLE.exhaust by (auto simp: syscall_table_def)
  show "UNIV = set (Enum.enum :: SYSCALL_TABLE list)" by (simp add: all enum_SYSCALL_TABLE_def)
  show "distinct (Enum.enum :: SYSCALL_TABLE list)" by (simp add: enum_SYSCALL_TABLE_def syscall_table_def)
  show "Enum.enum_all P \<longleftrightarrow> Ball UNIV P" "Enum.enum_ex P \<longleftrightarrow> Bex UNIV P" for P :: "SYSCALL_TABLE \<Rightarrow> bool"
    by (simp_all add: all enum_all_SYSCALL_TABLE_def enum_ex_SYSCALL_TABLE_def list_all_iff list_ex_iff)
qed

end

definition syscall_number :: "SYSCALL_TABLE \<Rightarrow> u64" where
  "syscall_number c = of_nat (length (takeWhile (\<lambda>d. d \<noteq> c) syscall_table))"

datatype insn = mov_x8 u64 | svc_0 | ret

record asm_fn =
  code :: "insn list"
  operands :: "nat list"
  clobbers :: "nat list"

definition libc_open :: asm_fn where
  "libc_open = \<lparr>code = [mov_x8 0, svc_0, ret], operands = [0, 1], clobbers = [8]\<rparr>"

definition libc_read :: asm_fn where
  "libc_read = \<lparr>code = [mov_x8 1, svc_0, ret], operands = [1, 2], clobbers = [8]\<rparr>"

definition libc_write :: asm_fn where
  "libc_write = \<lparr>code = [mov_x8 2, svc_0, ret], operands = [1, 2], clobbers = [8]\<rparr>"

definition libc_close :: asm_fn where
  "libc_close = \<lparr>code = [mov_x8 3, svc_0, ret], operands = [], clobbers = [8]\<rparr>"

definition libc_fork :: asm_fn where
  "libc_fork = \<lparr>code = [mov_x8 4, svc_0, ret], operands = [], clobbers = [8]\<rparr>"

definition libc_execve :: asm_fn where
  "libc_execve = \<lparr>code = [mov_x8 5, svc_0], operands = [0, 1, 2], clobbers = [0, 1, 2, 8]\<rparr>"

definition libc_wait :: asm_fn where
  "libc_wait = \<lparr>code = [mov_x8 6, svc_0], operands = [], clobbers = [0, 8]\<rparr>"

definition libc_sleep :: asm_fn where
  "libc_sleep = \<lparr>code = [mov_x8 7, svc_0], operands = [], clobbers = [0, 8]\<rparr>"

definition libc_exit :: asm_fn where
  "libc_exit = \<lparr>code = [mov_x8 8, svc_0], operands = [0], clobbers = [0, 1, 8]\<rparr>"

lemmas libc_defs = libc_open_def libc_read_def libc_write_def libc_close_def libc_fork_def libc_execve_def
  libc_wait_def libc_sleep_def libc_exit_def

definition libc :: "(SYSCALL_TABLE \<times> asm_fn) list" where
  "libc = [(OPEN, libc_open), (READ, libc_read), (WRITE, libc_write), (CLOSE, libc_close), (FORK, libc_fork),
     (EXECVE, libc_execve), (WAIT, libc_wait), (SLEEP, libc_sleep), (EXIT, libc_exit)]"

fun exec :: "insn list \<Rightarrow> cpu_state \<Rightarrow> u64 list \<times> bool \<times> cpu_state" where
  "exec [] s = ([], False, s)"
| "exec (mov_x8 n # is) s = exec is (mov 8 n s)"
| "exec (svc_0 # is) s =
     (let s = uservec s; nr = xs s 0; (calls, early, s') = exec is (handle_syscall nr s)
      in (nr # calls, early, s'))"
| "exec (ret # is) s = ([], True, s)"

definition load_operands :: "asm_fn \<Rightarrow> nat list \<Rightarrow> u64 list \<Rightarrow> cpu_state \<Rightarrow> cpu_state" where
  "load_operands fn regs args s = fold (\<lambda>(r, i). mov r (args ! i)) (zip regs (operands fn)) s"

definition run_libc :: "asm_fn \<Rightarrow> nat list \<Rightarrow> u64 list \<Rightarrow> cpu_state \<Rightarrow> u64 list \<times> bool \<times> cpu_state" where
  "run_libc fn regs args s = exec (code fn) (load_operands fn regs args s)"

definition allocation :: "asm_fn \<Rightarrow> nat list \<Rightarrow> bool" where
  "allocation fn regs \<longleftrightarrow>
     length regs = length (operands fn) \<and> distinct regs \<and> (\<forall>r\<in>set regs. r < 31 \<and> r \<notin> set (clobbers fn))"

section \<open>Programs\<close>

text \<open>\<^verbatim>\<open>init\<close>, whose body is an empty endless loop.\<close>

partial_function (option) init :: "'s \<Rightarrow> 's option" where
  "init s = init s"

section \<open>Lemmas\<close>

lemma mov_fields [simp]:
  "xs (mov r v s) = (xs s)(r := v)" "spr (mov r v s) = spr s" "tpidr (mov r v s) = tpidr s" "ram (mov r v s) = ram s"
  by (simp_all add: mov_def)

lemma fold_mov_layout:
  "spr (fold (\<lambda>(r, i). mov r (f i)) ps t) = spr t" "tpidr (fold (\<lambda>(r, i). mov r (f i)) ps t) = tpidr t"
  "ram (fold (\<lambda>(r, i). mov r (f i)) ps t) = ram t"
  by (induction ps arbitrary: t) (simp_all split: prod.splits)

lemma fold_mov_other: "r \<notin> fst ` set ps \<Longrightarrow> xs (fold (\<lambda>(r, i). mov r (f i)) ps t) r = xs t r"
  by (induction ps arbitrary: t) (auto split: prod.splits)

lemma fold_mov_value:
  "distinct (map fst ps) \<Longrightarrow> k < length ps \<Longrightarrow>
   xs (fold (\<lambda>(r, i). mov r (f i)) ps t) (fst (ps ! k)) = f (snd (ps ! k))"
proof (induction ps arbitrary: t k)
  case (Cons p ps)
  then show ?case by (cases k; cases p) (simp_all add: fold_mov_other)
qed simp

lemma load_operands_layout:
  "spr (load_operands fn regs args s) = spr s" "tpidr (load_operands fn regs args s) = tpidr s"
  "ram (load_operands fn regs args s) = ram s"
  by (simp_all add: load_operands_def fold_mov_layout)

lemma load_operands_other: "r \<notin> set regs \<Longrightarrow> xs (load_operands fn regs args s) r = xs s r"
  unfolding load_operands_def by (rule fold_mov_other) (auto dest: set_zip_leftD)

lemma load_operands_value:
  assumes "allocation fn regs" "k < length regs"
  shows "xs (load_operands fn regs args s) (regs ! k) = args ! (operands fn ! k)"
  using fold_mov_value [of "zip regs (operands fn)" k "(!) args" s] assms
  by (simp add: load_operands_def allocation_def)

lemma syscall_register:
  assumes "trap_layout tf s" "r < 31" "r \<noteq> 18" "r \<noteq> 19"
  shows "xs (syscall s) r = xs s r"
proof -
  let ?rs = "[0..<18] @ [16, 17] @ [20..<31]"
  have "\<forall>r\<in>set [0..<31]. r \<noteq> 18 \<and> r \<noteq> 19 \<longrightarrow> [0..<31] ! r = r \<and> ?rs ! r = r" "length ?rs = 31" by code_simp+
  then have "[0..<31] ! r = r" "?rs ! r = r" "r < length ?rs" using assms(2-4) by auto
  moreover have "map (xs (syscall s)) [0..<31] ! r = map (xs s) ?rs ! r"
    using syscall_registers [OF assms(1)] by (simp only:)
  ultimately show ?thesis using assms(2) by (metis length_upt minus_nat.diff_0 nth_map)
qed

lemma run_stub:
  assumes l: "trap_layout tf s" and c: "code fn = mov_x8 n # svc_0 # is" "is = [] \<or> is = [ret]" and n: "8 \<in> set (clobbers fn)"
  shows "\<exists>s'. run_libc fn regs args s = ([n], is \<noteq> [], s') \<and> spr s' = spr s \<and>
    (\<forall>r<31. r \<notin> {8, 18, 19} \<longrightarrow> xs s' r = xs (load_operands fn regs args s) r)"
proof -
  let ?t = "mov 8 n (load_operands fn regs args s)"
  have l': "trap_layout tf ?t" using l by (simp add: trap_layout_def load_operands_layout)
  have "run_libc fn regs args s = ([n], is \<noteq> [], syscall ?t)"
    using c uservec_words(5) [OF l'] by (auto simp: run_libc_def syscall_def Let_def)
  moreover have "spr (syscall ?t) = spr s" using syscall_registers [OF l'] by (simp add: load_operands_layout)
  moreover have "xs (syscall ?t) r = xs (load_operands fn regs args s) r" if "r < 31" "r \<notin> {8, 18, 19}" for r
    using syscall_register [OF l', of r] that by simp
  ultimately show ?thesis by blast
qed

lemma syscall_number_index: "Enum.enum ! unat (syscall_number c) = c"
  by (cases c) (simp_all add: syscall_number_def enum_SYSCALL_TABLE_def syscall_table_def)

lemma syscall_number_eq [simp]: "syscall_number c = syscall_number d \<longleftrightarrow> c = d"
  by (metis syscall_number_index)

lemma libc_code:
  assumes "(c, fn) \<in> set libc"
  shows "code fn = mov_x8 (syscall_number c) # svc_0 # (if c \<in> {OPEN, READ, WRITE, CLOSE, FORK} then [ret] else []) \<and>
    8 \<in> set (clobbers fn)"
proof -
  have "\<forall>(c, fn)\<in>set libc. code fn = mov_x8 (syscall_number c) # svc_0 #
      (if c \<in> {OPEN, READ, WRITE, CLOSE, FORK} then [ret] else []) \<and> 8 \<in> set (clobbers fn)"
    by (simp add: libc_def libc_defs syscall_number_def syscall_table_def)
  with assms show ?thesis by blast
qed

section \<open>Properties\<close>

text \<open>C38: Every system-call function of \<^verbatim>\<open>libc.c\<close> reaches \<^verbatim>\<open>handle_syscall\<close> exactly once, with the number the
  enumeration of \<^verbatim>\<open>libc.h\<close> gives it, whatever registers the compiler picks for the operands. Afterwards
  the operands still hold the arguments, the stack pointer and all registers but \<^verbatim>\<open>x8\<close>, \<^verbatim>\<open>x18\<close> and \<^verbatim>\<open>x19\<close>
  are as before. The first five leave by a \<^verbatim>\<open>ret\<close> in their \<^verbatim>\<open>asm\<close> text.\<close>

theorem libc_calls_number:
  assumes "(c, fn) \<in> set libc" "allocation fn regs" "trap_layout tf s"
  shows "\<exists>s'. run_libc fn regs args s = ([syscall_number c], c \<in> {OPEN, READ, WRITE, CLOSE, FORK}, s') \<and> spr s' = spr s \<and>
    (\<forall>r<31. r \<notin> set regs \<union> {8, 18, 19} \<longrightarrow> xs s' r = xs s r) \<and>
    (\<forall>i<length regs. regs ! i \<notin> {18, 19} \<longrightarrow> xs s' (regs ! i) = args ! (operands fn ! i))"
proof -
  obtain rest where c: "code fn = mov_x8 (syscall_number c) # svc_0 # rest" "rest = [] \<or> rest = [ret]"
    "8 \<in> set (clobbers fn)" "rest \<noteq> [] \<longleftrightarrow> c \<in> {OPEN, READ, WRITE, CLOSE, FORK}"
    using libc_code [OF assms(1)] by auto
  obtain s' where s': "run_libc fn regs args s = ([syscall_number c], rest \<noteq> [], s')" "spr s' = spr s"
    "\<forall>r<31. r \<notin> {8, 18, 19} \<longrightarrow> xs s' r = xs (load_operands fn regs args s) r"
    using run_stub [OF assms(3) c(1-3), of regs args] by blast
  have "xs s' r = xs s r" if "r < 31" "r \<notin> set regs \<union> {8, 18, 19}" for r
    using s'(3) that load_operands_other by simp
  moreover have "xs s' (regs ! i) = args ! (operands fn ! i)" if "i < length regs" "regs ! i \<notin> {18, 19}" for i
  proof -
    have "regs ! i \<in> set regs" using that(1) by simp
    then have "regs ! i < 31" "regs ! i \<noteq> 8" using assms(2) c(3) by (auto simp: allocation_def)
    then show ?thesis using s'(3) that load_operands_value [OF assms(2) that(1)] by simp
  qed
  ultimately show ?thesis using s'(1,2) c(4) by (intro exI [of _ s']) simp
qed

theorem libc_calls_number_witness:
  "\<exists>s'. run_libc libc_write [1, 2] [1, 0x6000, 5] sample_trap = ([2], True, s') \<and> xs s' 1 = 0x6000 \<and> xs s' 20 = 20"
proof -
  have n: "syscall_number WRITE = 2" by (simp add: syscall_number_def syscall_table_def)
  have "(WRITE, libc_write) \<in> set libc" "allocation libc_write [1, 2]"
    by (simp_all add: libc_def allocation_def libc_write_def)
  from libc_calls_number [OF this sample_trap_layout, of "[1, 0x6000, 5]"] obtain s' where
    s': "run_libc libc_write [1, 2] [1, 0x6000, 5] sample_trap = ([2], True, s')"
    "\<forall>r<31. r \<notin> set [1, 2 :: nat] \<union> {8, 18, 19} \<longrightarrow> xs s' r = xs sample_trap r"
    "\<forall>i<length [1, 2 :: nat]. [1, 2 :: nat] ! i \<notin> {18, 19} \<longrightarrow>
      xs s' ([1, 2 :: nat] ! i) = [1, 0x6000, 5] ! (operands libc_write ! i)"
    by (auto simp: n simp del: One_nat_def)
  from s'(3) [rule_format, of 0] have "xs s' ([1, 2] ! 0) = [1, 0x6000, 5] ! (operands libc_write ! 0)" by simp
  moreover have "xs s' 20 = xs sample_trap 20" using s'(2) by simp
  ultimately show ?thesis using s'(1) by (simp add: libc_write_def sample_trap_def)
qed

end
