(* ===== verification/Rootfs_Safe.thy ===== *)
theory Rootfs_Safe
  imports Rootfs_Load
begin

text \<open>
  Memory safety of \<^verbatim>\<open>kernel/rootfs.c\<close> on arbitrary archives. \<open>ramfs_ok\<close> is the type of the file system: both
  arrays have their declared sizes, every name is a terminated string in its 16 bytes, and every
  pointer of a file is null or points into its array. \<^verbatim>\<open>init_ramfs\<close> keeps it whatever bytes it reads.
\<close>

section \<open>The type of the file system\<close>

definition name_ok :: "u8 list \<Rightarrow> bool" where
  "name_ok n \<longleftrightarrow> length n = FILENAME_SIZE \<and> 0 \<in> set n"

definition ptr_ok :: "fs_ptr \<Rightarrow> bool" where
  "ptr_ok p \<longleftrightarrow> (case p of Null \<Rightarrow> True | ToFile i \<Rightarrow> i < ROOTFS_FILE_COUNT | ToInode i \<Rightarrow> i < ROOTFS_INODE_COUNT)"

definition file_ok :: "fsfile \<Rightarrow> bool" where
  "file_ok f \<longleftrightarrow> name_ok (file_name f) \<and> pred_option (\<lambda>i. i < ROOTFS_FILE_COUNT) (file_parent f) \<and>
     pred_option (\<lambda>i. i < ROOTFS_FILE_COUNT) (next_file f) \<and> ptr_ok (children_or_ino f)"

definition ramfs_ok :: "'a ramfs_scheme \<Rightarrow> bool" where
  "ramfs_ok fs \<longleftrightarrow> length (files fs) = ROOTFS_FILE_COUNT \<and> length (inodes fs) = ROOTFS_INODE_COUNT \<and>
     list_all file_ok (files fs)"

definition loop_ok :: "ramfs_loop \<Rightarrow> bool" where
  "loop_ok s \<longleftrightarrow> ramfs_ok s \<and> current_ino s < ROOTFS_INODE_COUNT"

named_theorems ramfs_intros \<open>preservation of the type of the file system\<close>

section \<open>Lemmas\<close>

lemma ptr_ok_simps [simp]:
  "ptr_ok Null" "ptr_ok (ToFile i) \<longleftrightarrow> i < ROOTFS_FILE_COUNT" "ptr_ok (ToInode i) \<longleftrightarrow> i < ROOTFS_INODE_COUNT"
  by (simp_all add: ptr_ok_def)

lemma index_in_range [simp]: "unat (i :: u8) < ROOTFS_FILE_COUNT" "unat (i :: u8) < ROOTFS_INODE_COUNT"
  by (simp_all add: ramfs_counts unat8_less)

lemma ramfs_ok_file: "ramfs_ok fs \<Longrightarrow> i < ROOTFS_FILE_COUNT \<Longrightarrow> file_ok (files fs ! i)"
  by (simp add: ramfs_ok_def list_all_length)

lemma ramfs_ok_upd_file [ramfs_intros]:
  assumes "ramfs_ok fs" "i < ROOTFS_FILE_COUNT" "file_ok (files fs ! i) \<Longrightarrow> file_ok (f (files fs ! i))"
  shows "ramfs_ok (upd_file i f fs)"
  using assms ramfs_ok_file [OF assms(1,2)]
  by (auto simp: ramfs_ok_def upd_file_def list_all_length nth_list_update)

lemma ramfs_ok_upd_inode [ramfs_intros]: "ramfs_ok fs \<Longrightarrow> ramfs_ok (upd_inode i f fs)"
  by (simp add: ramfs_ok_def upd_inode_def)

lemma ramfs_ok_loop_vars [simp]:
  fixes s :: ramfs_loop
  shows "ramfs_ok (s\<lparr>findex := a\<rparr>) = ramfs_ok s" "ramfs_ok (s\<lparr>iindex := a\<rparr>) = ramfs_ok s"
    "ramfs_ok (s\<lparr>current_ino := c\<rparr>) = ramfs_ok s" "ramfs_ok (s\<lparr>byte_stream := p\<rparr>) = ramfs_ok s"
    "ramfs_ok (ramfs.truncate s) = ramfs_ok s"
  by (simp_all add: ramfs_ok_def)

lemma name_ok_cstring:
  assumes "name_ok n"
  obtains k where "is_cstring (arr_str n) k"
proof -
  obtain i where "i < length n \<and> n ! i = 0" using assms by (auto simp: name_ok_def in_set_conv_nth)
  then obtain k where k: "k < length n" "n ! k = 0" and least: "\<forall>j<k. \<not> (j < length n \<and> n ! j = 0)"
    using exists_least_iff [of "\<lambda>i. i < length n \<and> n ! i = 0"] by blast
  have "arr_str n j \<noteq> None \<and> arr_str n j \<noteq> Some 0" if "j < k" for j
    using least that k(1) by (simp add: arr_str_def)
  then have "is_cstring (arr_str n) k" using k by (simp add: is_cstring_def arr_str_def)
  then show ?thesis by (rule that)
qed

lemma search_file_loop_ok:
  assumes "ramfs_ok fs" "is_cstring name k"
  shows "\<exists>r. search_file_loop i name fs = Inr r \<and> pred_option (\<lambda>i. i < ROOTFS_FILE_COUNT) r"
proof (induction "ROOTFS_FILE_COUNT - i" arbitrary: i)
  case 0
  then show ?case by (simp add: search_file_loop.simps)
next
  case (Suc d)
  then have i: "i < ROOTFS_FILE_COUNT" by simp
  obtain n where "is_cstring (arr_str (file_name (files fs ! i))) n"
    using ramfs_ok_file [OF assms(1) i] by (auto simp: file_ok_def elim: name_ok_cstring)
  from streq.returns [OF this assms(2)] obtain r where "strequal (arr_str (file_name (files fs ! i))) name = Some r" ..
  moreover have "d = ROOTFS_FILE_COUNT - (i + 1)" using Suc.hyps(2) by simp
  ultimately show ?case using i Suc.hyps(1) [of "i + 1"] by (subst search_file_loop.simps) simp
qed

lemma last_sibling_ok:
  assumes "last_sibling k fs = Some k'" "ramfs_ok fs" "k < ROOTFS_FILE_COUNT"
  shows "k' < ROOTFS_FILE_COUNT"
proof -
  have "ramfs_ok fs \<longrightarrow> k < ROOTFS_FILE_COUNT \<longrightarrow> k' < ROOTFS_FILE_COUNT"
  proof (rule last_sibling.raw_induct [where P = "\<lambda>k fs k'. ramfs_ok fs \<longrightarrow> k < ROOTFS_FILE_COUNT \<longrightarrow> k' < ROOTFS_FILE_COUNT",
        OF _ assms(1)])
    fix g :: "nat \<Rightarrow> 'a ramfs_scheme \<Rightarrow> nat option" and k k' and fs :: "'a ramfs_scheme"
    assume IH: "\<And>k fs k'. g k fs = Some k' \<Longrightarrow> ramfs_ok fs \<longrightarrow> k < ROOTFS_FILE_COUNT \<longrightarrow> k' < ROOTFS_FILE_COUNT"
      and eq: "(case next_file (files fs ! k) of None \<Rightarrow> Some k | Some k' \<Rightarrow> g k' fs) = Some k'"
    show "ramfs_ok fs \<longrightarrow> k < ROOTFS_FILE_COUNT \<longrightarrow> k' < ROOTFS_FILE_COUNT"
    proof (intro impI)
      assume ok: "ramfs_ok fs" "k < ROOTFS_FILE_COUNT"
      then have "pred_option (\<lambda>i. i < ROOTFS_FILE_COUNT) (next_file (files fs ! k))"
        using ramfs_ok_file [OF ok] by (simp add: file_ok_def)
      then show "k' < ROOTFS_FILE_COUNT" using eq IH ok by (cases "next_file (files fs ! k)") auto
    qed
  qed
  with assms show ?thesis by simp
qed

lemma parse_name_ok:
  assumes "parse_name m fname par idx p = Some (fname', par')" "length fname = FILENAME_SIZE" "name_ok par"
    "idx < FILENAME_SIZE"
  shows "name_ok fname' \<and> name_ok par'"
proof -
  let ?P = "\<lambda>m fname par idx p (r :: u8 list \<times> u8 list). length fname = FILENAME_SIZE \<longrightarrow> name_ok par \<longrightarrow> idx < FILENAME_SIZE \<longrightarrow>
    name_ok (fst r) \<and> name_ok (snd r)"
  have "?P m fname par idx p (fname', par')"
  proof (rule parse_name.raw_induct [where P = ?P, OF _ assms(1)], intro impI)
    fix g :: "memory \<Rightarrow> u8 list \<Rightarrow> u8 list \<Rightarrow> nat \<Rightarrow> u64 \<Rightarrow> (u8 list \<times> u8 list) option" and m fname par idx p r
    assume IH: "\<And>m fname par idx p r. g m fname par idx p = Some r \<Longrightarrow> ?P m fname par idx p r"
      and eq: "(if idx < FILENAME_SIZE
        then if m p = 0x2F
             then g m (replicate FILENAME_SIZE 0) (map (\<lambda>j. if j < idx then fname ! j else 0) [0..<FILENAME_SIZE]) 0 (p + 1)
             else if m p = 0 then Some (fname[idx := m p], par)
             else g m (fname[idx := m p]) par ((idx + 1) mod ROOTFS_MAX_FILENAME_SIZE) (p + 1)
        else Some (fname, par)) = Some r"
      and l: "length fname = FILENAME_SIZE" "name_ok par" "idx < FILENAME_SIZE"
    consider "m p = 0x2F" | "m p \<noteq> 0x2F" "m p = 0" | "m p \<noteq> 0x2F" "m p \<noteq> 0" by blast
    then show "name_ok (fst r) \<and> name_ok (snd r)"
    proof cases
      case 1
      have "name_ok (map (\<lambda>j. if j < idx then fname ! j else 0) [0..<FILENAME_SIZE])"
        using l(3) by (force simp: name_ok_def)
      then show ?thesis using IH [of m "replicate FILENAME_SIZE 0"] eq l 1 by (simp add: FILENAME_SIZE_def)
    next
      case 2
      then have "r = (fname[idx := 0], par)" using eq l(3) by simp
      then show ?thesis using l by (simp add: name_ok_def set_update_memI)
    next
      case 3
      have "(idx + 1) mod ROOTFS_MAX_FILENAME_SIZE < FILENAME_SIZE"
        by (simp add: ROOTFS_MAX_FILENAME_SIZE_def FILENAME_SIZE_def)
      then show ?thesis using IH [of m "fname[idx := m p]" par _ "p + 1"] eq l 3 by simp
    qed
  qed
  with assms(2-4) show ?thesis by simp
qed

lemma find_inode_ok: "find_inode d n fs = Some i \<Longrightarrow> i < ROOTFS_INODE_COUNT"
  by (auto simp: find_inode_def find_Some_iff)

lemma set_type_ok:
  assumes "loop_ok s" "set_type m ft c_ino c_dev sz s = Some s'"
  shows "loop_ok s'"
  using assms
  by (auto simp: set_type_def loop_ok_def Let_def file_ok_def intro!: ramfs_intros
      dest: find_inode_ok split: FILETYPE.splits if_splits option.splits)

lemma set_data_ok: "loop_ok s \<Longrightarrow> loop_ok (set_data ft sz p s)"
  by (auto simp: set_data_def loop_ok_def Let_def file_ok_def intro!: ramfs_intros)

lemma link_parent_ok:
  assumes ok: "loop_ok s" and par: "name_ok par" and r: "link_parent par s = Some r"
  shows "case r of Inl e \<Rightarrow> e = WrongMember | Inr s' \<Rightarrow> loop_ok s'"
proof -
  define t where "t = upd_file (unat (findex s)) (\<lambda>f. f\<lparr>next_file := None\<rparr>) s"
  have t: "loop_ok t" using ok by (auto simp: t_def loop_ok_def file_ok_def intro!: ramfs_intros)
  obtain k where "is_cstring (arr_str par) k" using par by (rule name_ok_cstring)
  with t obtain q where q: "search_file (arr_str par) t = Inr q" "pred_option (\<lambda>i. i < ROOTFS_FILE_COUNT) q"
    using search_file_loop_ok [of t "arr_str par"] by (auto simp: search_file_def loop_ok_def)
  define u where "u = upd_file (unat (findex s)) (\<lambda>f. f\<lparr>file_parent := q\<rparr>) t"
  have u: "loop_ok u" using t q(2) by (auto simp: u_def loop_ok_def file_ok_def intro!: ramfs_intros)
  have "link_parent par s =
      (if par ! 0 = 0 then Some (Inr t)
       else case q of None \<Rightarrow> Some (Inr u)
        | Some p \<Rightarrow> (case children_or_ino (files u ! p) of
             Null \<Rightarrow> Some (Inr (upd_file p (\<lambda>f. f\<lparr>children_or_ino := ToFile (unat (findex s))\<rparr>) u))
           | ToInode _ \<Rightarrow> Some (Inl WrongMember)
           | ToFile k \<Rightarrow> (case last_sibling k u of None \<Rightarrow> None
                | Some k \<Rightarrow> Some (Inr (upd_file k (\<lambda>f. f\<lparr>next_file := Some (unat (findex s))\<rparr>) u)))))"
    using q(1) by (simp add: link_parent_def Let_def t_def [symmetric] u_def [symmetric])
  moreover have "loop_ok (upd_file p (\<lambda>f. f\<lparr>children_or_ino := ToFile (unat (findex s))\<rparr>) u)"
    "loop_ok (upd_file p (\<lambda>f. f\<lparr>next_file := Some (unat (findex s))\<rparr>) u)" if "p < ROOTFS_FILE_COUNT" for p
    using u that by (auto simp: loop_ok_def file_ok_def intro!: ramfs_intros)
  moreover have "k' < ROOTFS_FILE_COUNT" if "p < ROOTFS_FILE_COUNT" "children_or_ino (files u ! p) = ToFile k"
      "last_sibling k u = Some k'" for p k k'
  proof (rule last_sibling_ok [OF that(3)])
    show "ramfs_ok u" using u by (simp add: loop_ok_def)
    then show "k < ROOTFS_FILE_COUNT" using ramfs_ok_file [of u p] that by (simp add: file_ok_def)
  qed
  ultimately show ?thesis
    using t u q(2) r by (auto split: if_splits option.splits fs_ptr.splits)
qed

lemma init_step_ok:
  assumes ok: "loop_ok s" and r: "init_ramfs_step m s = Some r"
  shows "case r of Inl e \<Rightarrow> e = WrongMember | Inr (Inl (_, _, fs)) \<Rightarrow> ramfs_ok fs | Inr (Inr s') \<Rightarrow> loop_ok s'"
proof (cases "check_magic m (byte_stream s) = -1 \<or> check_end_archive m (byte_stream s + 110) \<noteq> 0")
  case True
  have "ramfs_ok s" using ok by (simp add: loop_ok_def)
  with True r show ?thesis
    by (cases "check_magic m (byte_stream s) = -1") (auto simp: init_ramfs_step_def Let_def add.assoc)
next
  case False
  define ft sz nz where "ft = get_file_type m (byte_stream s + 18)" "sz = int_from_string m (byte_stream s + 54) 8"
    "nz = int_from_string m (byte_stream s + 94) 8"
  note defs = init_ramfs_step_def Let_def add.assoc ft_sz_nz_def [symmetric]
  show ?thesis
  proof (cases "set_type m ft (byte_stream s + 6) (byte_stream s + 70) sz s")
    case None
    moreover have "ramfs_ok (upd_file (unat (findex s)) (\<lambda>f. f\<lparr>file_type := INVALID\<rparr>) s)"
      using ok by (auto simp: loop_ok_def file_ok_def intro!: ramfs_intros)
    ultimately show ?thesis using False r by (auto simp: defs)
  next
    case (Some s1)
    then have s1: "loop_ok s1" using set_type_ok [OF ok] by blast
    obtain fname par where pn: "parse_name m (replicate FILENAME_SIZE 0) (replicate FILENAME_SIZE 0) 0 (byte_stream s + 110) =
        Some (fname, par)"
      using False r Some by (auto simp: defs split: option.splits)
    moreover have "name_ok (replicate FILENAME_SIZE 0)" by (simp add: name_ok_def FILENAME_SIZE_def)
    ultimately have names: "name_ok fname" "name_ok par"
      using parse_name_ok by (auto simp: FILENAME_SIZE_def)
    define s2 where "s2 = upd_file (unat (findex s1)) (\<lambda>f. f\<lparr>file_name := fname\<rparr>) s1"
    have s2: "loop_ok s2" using s1 names(1) by (auto simp: s2_def loop_ok_def file_ok_def intro!: ramfs_intros)
    obtain q where q: "link_parent par s2 = Some q"
      using False r Some pn by (auto simp: defs s2_def split: option.splits)
    note ok3 = link_parent_ok [OF s2 names(2) q]
    show ?thesis
    proof (cases q)
      case (Inl e)
      then show ?thesis using False r Some pn q ok3 by (auto simp: defs s2_def)
    next
      case (Inr s3)
      then have "loop_ok (set_data ft sz p s3)" for p using ok3 by (simp add: set_data_ok)
      then have "loop_ok ((set_data ft sz p s3)\<lparr>byte_stream := a, findex := b\<rparr>)" for p a b
        by (simp add: loop_ok_def)
      then show ?thesis using False r Some pn q Inr by (auto simp: defs s2_def)
    qed
  qed
qed

lemma init_loop_ok:
  assumes "init_ramfs_loop m s = Some r" "loop_ok s"
  shows "case r of Inl e \<Rightarrow> e = WrongMember | Inr (_, _, fs) \<Rightarrow> ramfs_ok fs"
proof -
  let ?Q = "\<lambda>r :: fs_error + init_result. case r of Inl e \<Rightarrow> e = WrongMember | Inr (_, _, fs) \<Rightarrow> ramfs_ok fs"
  have "loop_ok s \<longrightarrow> ?Q r"
  proof (rule init_ramfs_loop.raw_induct [where P = "\<lambda>m s r. loop_ok s \<longrightarrow> ?Q r", OF _ assms(1)], intro impI)
    fix g :: "memory \<Rightarrow> ramfs_loop \<Rightarrow> (fs_error + init_result) option" and m s r
    assume IH: "\<And>m s r. g m s = Some r \<Longrightarrow> loop_ok s \<longrightarrow> ?Q r"
      and eq: "(case init_ramfs_step m s of None \<Rightarrow> None | Some (Inl e) \<Rightarrow> Some (Inl e)
        | Some (Inr (Inl r)) \<Rightarrow> Some (Inr r) | Some (Inr (Inr s)) \<Rightarrow> g m s) = Some r"
      and s: "loop_ok s"
    obtain q where q: "init_ramfs_step m s = Some q" using eq by (cases "init_ramfs_step m s") auto
    note step = init_step_ok [OF s q]
    show "?Q r"
    proof (cases q)
      case (Inl e)
      then show ?thesis using step eq q by auto
    next
      case (Inr t)
      then show ?thesis using step eq q IH [of m _ r] by (cases t) auto
    qed
  qed
  with assms(2) show ?thesis by simp
qed

section \<open>Properties\<close>

text \<open>C8: \<^verbatim>\<open>init_ramfs\<close> is memory safe on arbitrary bytes: from a well-typed file system, whatever the archive
  holds, if it returns then either with a well-typed file system again, or at a parent that is not a directory,
  the only error. No index leaves its array and no name is unterminated.\<close>

theorem init_ramfs_well_typed:
  assumes "ramfs_ok fs" "init_ramfs m fs = Some r"
  shows "case r of Inl e \<Rightarrow> e = WrongMember | Inr (_, _, fs') \<Rightarrow> ramfs_ok fs'"
proof -
  have "loop_ok (ramfs.extend fs (ramfs_loop.fields 0 0 0 RAMFS_START))"
    using assms(1) by (simp add: loop_ok_def ramfs_ok_def ramfs.extend_def ramfs_loop.fields_def ramfs_counts)
  with assms(2) show ?thesis unfolding init_ramfs_def by (rule init_loop_ok)
qed

theorem init_ramfs_well_typed_witness:
  "\<exists>r e fs'. init_ramfs sample_memory empty_ramfs = Some (Inr (r, e, fs')) \<and> ramfs_ok fs'"
proof -
  have ok: "ramfs_ok empty_ramfs"
    by (simp add: ramfs_ok_def empty_ramfs_def list_all_length empty_file_def file_ok_def name_ok_def FILENAME_SIZE_def)
  then have len: "length (files empty_ramfs) = ROOTFS_FILE_COUNT" "length (inodes empty_ramfs) = ROOTFS_INODE_COUNT"
    by (simp_all add: ramfs_ok_def)
  have "length [sample_entry 5 0x61, sample_entry 3 0x62] < 256"
    "length (filter has_data [sample_entry 5 0x61, sample_entry 3 0x62]) < 128" by simp_all
  from init_ramfs_archive [OF sample_archive this len] obtain fs' where
    r: "init_ramfs sample_memory empty_ramfs = Some (Inr (0, Some (RAMFS_START + 346), fs'))" by blast
  from init_ramfs_well_typed [OF ok r] r show ?thesis by simp
qed

end
