(* ===== verification/Cpio.thy ===== *)
theory Cpio
  imports Rootfs_Load "HOL-Library.Sublist"
begin

text \<open>
  Writing an archive and reading it back. \<open>cpio_newc_header\<close> is the structure of the same name in
  \<^verbatim>\<open>kernel/rootfs.c\<close>, the layout that \<^verbatim>\<open>init_ramfs\<close> follows by adding field sizes to its pointer.
  \<open>archive_bytes\<close> writes directories and files in that layout, the way the cpio tool does for names
  without a slash; \<^verbatim>\<open>init_ramfs\<close> gives back what was written, and \<^verbatim>\<open>search_file\<close> and \<^verbatim>\<open>read\<close> find it.
\<close>

definition HEADER_ATTRIBUTES_SIZE :: nat where
  "HEADER_ATTRIBUTES_SIZE = 8"

record cpio_newc_header =
  c_magic :: "u8 list"
  c_ino :: "u8 list"
  c_mode :: "u8 list"
  c_uid :: "u8 list"
  c_gid :: "u8 list"
  c_nlink :: "u8 list"
  c_mtime :: "u8 list"
  c_filesize :: "u8 list"
  c_devmajor :: "u8 list"
  c_devminor :: "u8 list"
  c_rdevmajor :: "u8 list"
  c_rdevminor :: "u8 list"
  c_namesize :: "u8 list"
  c_check :: "u8 list"

definition header_bytes :: "cpio_newc_header \<Rightarrow> u8 list" where
  "header_bytes h =
     c_magic h @ c_ino h @ c_mode h @ (c_uid h @ c_gid h @ c_nlink h @ c_mtime h) @ c_filesize h @
     c_devmajor h @ c_devminor h @ (c_rdevmajor h @ c_rdevminor h) @ c_namesize h @ c_check h"

section \<open>Writing\<close>

datatype cpio_object = Dir (obj_name: "u8 list") | Reg (obj_name: "u8 list") (obj_content: "u8 list")

fun obj_data :: "cpio_object \<Rightarrow> u8 list" where
  "obj_data (Dir n) = []"
| "obj_data (Reg n d) = d"

fun obj_type :: "cpio_object \<Rightarrow> FILETYPE" where
  "obj_type (Dir n) = DIRECTORY"
| "obj_type (Reg n d) = REGULAR"

fun obj_ident :: "cpio_object \<Rightarrow> u8 list" where
  "obj_ident (Dir n) = DIR_IDENT"
| "obj_ident (Reg n d) = FILE_IDENT"

definition obj_header :: "nat \<Rightarrow> cpio_object \<Rightarrow> cpio_newc_header" where
  "obj_header ino x =
     (let zero = hex_digits HEADER_ATTRIBUTES_SIZE 0
      in \<lparr>c_magic = MAGIC, c_ino = hex_digits HEADER_ATTRIBUTES_SIZE ino, c_mode = replicate 4 0x30 @ obj_ident x,
          c_uid = zero, c_gid = zero, c_nlink = zero, c_mtime = zero,
          c_filesize = hex_digits HEADER_ATTRIBUTES_SIZE (length (obj_data x)),
          c_devmajor = zero, c_devminor = zero, c_rdevmajor = zero, c_rdevminor = zero,
          c_namesize = hex_digits HEADER_ATTRIBUTES_SIZE (length (obj_name x) + 1), c_check = zero\<rparr>)"

definition pad4 :: "u8 list \<Rightarrow> u8 list" where
  "pad4 xs = xs @ replicate ((length xs + 3) div 4 * 4 - length xs) 0"

definition obj_bytes :: "nat \<Rightarrow> cpio_object \<Rightarrow> u8 list" where
  "obj_bytes ino x = pad4 (header_bytes (obj_header ino x) @ obj_name x @ [0]) @ pad4 (obj_data x)"

fun archive_bytes :: "nat \<Rightarrow> cpio_object list \<Rightarrow> u8 list" where
  "archive_bytes ino [] = header_bytes (obj_header 0 (Reg END [])) @ END @ [0]"
| "archive_bytes ino (x # xs) = obj_bytes ino x @ archive_bytes (ino + 1) xs"

text \<open>An object the reader takes: a plain name that does not look like the trailer, a 32-bit size.\<close>

definition readable :: "cpio_object \<Rightarrow> bool" where
  "readable x \<longleftrightarrow> plain (obj_name x) \<and> take 10 (obj_name x) \<noteq> END \<and> length (obj_data x) < 2 ^ 32"

definition obj_entry :: "cpio_object \<Rightarrow> entry" where
  "obj_entry x = \<lparr>ename = obj_name x, etype = obj_type x, esize = length (obj_data x)\<rparr>"

text \<open>Slot \<open>k\<close> of the file system holds the object, its content at the address its inode points to.\<close>

definition stored :: "memory \<Rightarrow> 'a ramfs_scheme \<Rightarrow> nat \<Rightarrow> cpio_object \<Rightarrow> bool" where
  "stored m fs k x \<longleftrightarrow>
     file_name (files fs ! k) = pad_name (obj_name x) \<and> file_type (files fs ! k) = obj_type x \<and>
     (obj_data x \<noteq> [] \<longrightarrow> (\<exists>n. children_or_ino (files fs ! k) = ToInode n \<and>
        data_size (inodes fs ! n) = of_nat (length (obj_data x)) \<and>
        bytes_at m (data (inodes fs ! n)) (obj_data x)))"

section \<open>Lemmas\<close>

lemma length_obj_ident [simp]: "length (obj_ident x) = 4"
  by (cases x) simp_all

lemma length_header [simp]: "length (header_bytes (obj_header ino x)) = 110"
  by (cases x) (simp_all add: header_bytes_def obj_header_def HEADER_ATTRIBUTES_SIZE_def Let_def)

lemma length_pad4 [simp]: "length (pad4 xs) = (length xs + 3) div 4 * 4"
  by (simp add: pad4_def)

lemma bytes_at_pad4: "bytes_at m a (pad4 xs) \<Longrightarrow> bytes_at m a xs"
  by (simp add: pad4_def bytes_at_append)

text \<open>The fields of a written header are where \<^verbatim>\<open>init_ramfs\<close> reads them.\<close>

lemma header_fields:
  assumes "bytes_at m a (header_bytes (obj_header ino x))"
  shows "bytes_at m a MAGIC" "bytes_at m (a + 18) (obj_ident x)"
    "bytes_at m (a + 54) (hex_digits 8 (length (obj_data x)))"
    "bytes_at m (a + 94) (hex_digits 8 (length (obj_name x) + 1))"
  using assms
  by (simp_all add: header_bytes_def obj_header_def HEADER_ATTRIBUTES_SIZE_def Let_def bytes_at_append add.commute)

lemma END_nonzero: "i < 10 \<Longrightarrow> END ! i \<noteq> 0"
proof -
  have "list_all (\<lambda>c. c \<noteq> 0) END" by (simp add: END_def)
  then show "i < 10 \<Longrightarrow> END ! i \<noteq> 0" by (simp add: list_all_length)
qed

lemma not_trailer:
  assumes "bytes_at m p (n @ [0])" "take 10 n \<noteq> END"
  shows "\<not> bytes_at m p END"
proof
  assume e: "bytes_at m p END"
  have n: "m (p + of_nat i) = (n @ [0]) ! i" if "i \<le> length n" for i
    using assms(1) that by (auto simp: bytes_at_def)
  have e: "m (p + of_nat i) = END ! i" if "i < 10" for i using e that by (simp add: bytes_at_def)
  have "10 \<le> length n"
  proof (rule ccontr)
    assume "\<not> 10 \<le> length n"
    then have "END ! length n = 0" using e [of "length n"] n [of "length n"] by (simp add: nth_append)
    with \<open>\<not> 10 \<le> length n\<close> show False using END_nonzero [of "length n"] by simp
  qed
  then have "take 10 n = END"
    by (intro nth_equalityI) (use e n in \<open>auto simp: nth_append\<close>)
  with assms(2) show False by contradiction
qed

lemma obj_ident_type: "bytes_at m p (obj_ident x) \<Longrightarrow> get_file_type m p = obj_type x"
proof (cases x)
  case (Dir n)
  assume b: "bytes_at m p (obj_ident x)"
  then have "\<not> bytes_at m p FILE_IDENT"
    using Dir by (auto simp: DIR_IDENT_def FILE_IDENT_def bytes_at_Cons)
  with b Dir show ?thesis by (simp add: get_file_type_eq)
qed (simp add: get_file_type_eq)

lemma obj_bytes_entry:
  assumes b: "bytes_at m a (obj_bytes ino x)" and ok: "readable x"
  shows "entry_at m a (obj_entry x)" "bytes_at m (entry_data a (obj_entry x)) (obj_data x)"
    "entry_end a (obj_entry x) = a + of_nat (length (obj_bytes ino x))"
proof -
  have h: "bytes_at m a (header_bytes (obj_header ino x) @ obj_name x @ [0])"
    and d: "bytes_at m (a + of_nat (length (pad4 (header_bytes (obj_header ino x) @ obj_name x @ [0])))) (pad4 (obj_data x))"
    using b by (auto simp: obj_bytes_def bytes_at_append [of _ _ "pad4 _"] dest: bytes_at_pad4)
  from h have name: "bytes_at m (a + 110) (obj_name x @ [0])"
    and head: "bytes_at m a (header_bytes (obj_header ino x))"
    by (simp_all add: bytes_at_append [of _ _ "header_bytes _"])
  have "plain (obj_name x)" "take 10 (obj_name x) \<noteq> END" "length (obj_data x) < 2 ^ 32"
    using ok by (simp_all add: readable_def)
  moreover have "obj_type x \<noteq> INVALID" by (cases x) simp_all
  ultimately show "entry_at m a (obj_entry x)"
    using header_fields [OF head] obj_ident_type name not_trailer [OF name]
    by (simp add: entry_at_def obj_entry_def)
  have data: "entry_data a (obj_entry x) = a + of_nat (length (pad4 (header_bytes (obj_header ino x) @ obj_name x @ [0])))"
    by (simp add: entry_data_def obj_entry_def add.assoc)
  with d show "bytes_at m (entry_data a (obj_entry x)) (obj_data x)" by (simp add: bytes_at_pad4)
  show "entry_end a (obj_entry x) = a + of_nat (length (obj_bytes ino x))"
    unfolding entry_end_def data by (simp add: obj_bytes_def obj_entry_def add.assoc)
qed

lemma archive_bytes_length: "11 \<le> length (archive_bytes ino xs)"
proof (induction xs arbitrary: ino)
  case (Cons x xs)
  from this [of "ino + 1"] show ?case by simp
qed simp

lemma archive_bytes_archive:
  assumes "bytes_at m a (archive_bytes ino xs)" "list_all readable xs"
  shows "archive m a (map obj_entry xs) (0, Some (a + of_nat (length (archive_bytes ino xs) - 11))) \<and>
    (\<forall>i<length xs. bytes_at m (entry_data (entry_addr a (map obj_entry xs) i) (obj_entry (xs ! i))) (obj_data (xs ! i)))"
  using assms
proof (induction xs arbitrary: a ino)
  case Nil
  then have "bytes_at m a (header_bytes (obj_header 0 (Reg END [])))" "bytes_at m (a + 110) END"
    by (simp_all add: bytes_at_append [of _ _ "header_bytes _"] bytes_at_append [of _ _ END])
  then show ?case using header_fields(1) by (simp add: stop_def)
next
  case (Cons x xs)
  let ?a = "a + of_nat (length (obj_bytes ino x))"
  have s: "bytes_at m a (obj_bytes ino x)" "readable x"
    "bytes_at m ?a (archive_bytes (ino + 1) xs)" "list_all readable xs"
    using Cons.prems by (simp_all add: bytes_at_append)
  note x = obj_bytes_entry [OF s(1,2)] and IH = Cons.IH [OF s(3,4)]
  have e: "?a + of_nat (length (archive_bytes (ino + 1) xs) - 11) =
      a + of_nat (length (archive_bytes ino (x # xs)) - 11)"
    using archive_bytes_length [of "ino + 1" xs] by (simp add: of_nat_diff)
  have "archive m ?a (map obj_entry xs) (0, Some (a + of_nat (length (archive_bytes ino (x # xs)) - 11)))"
    using conjunct1 [OF IH] unfolding e .
  then have "archive m a (map obj_entry (x # xs)) (0, Some (a + of_nat (length (archive_bytes ino (x # xs)) - 11)))"
    using x by (simp del: archive_bytes.simps)
  moreover have "bytes_at m (entry_data (entry_addr a (map obj_entry (x # xs)) i) (obj_entry ((x # xs) ! i)))
      (obj_data ((x # xs) ! i))" if "i < length (x # xs)" for i
    using that IH x by (cases i) simp_all
  ultimately show ?case by blast
qed

lemma loaded_stored:
  assumes "loaded fs k a (obj_entry x)" "bytes_at m (entry_data a (obj_entry x)) (obj_data x)"
  shows "stored m fs k x"
  using assms by (cases x) (auto simp: loaded_def stored_def obj_entry_def has_data_def)

lemma archive_stored:
  assumes "bytes_at m RAMFS_START (archive_bytes ino xs)" "list_all readable xs"
    and "length xs < 256" "length (filter (\<lambda>x. obj_data x \<noteq> []) xs) < 128"
    and "length (files fs) = ROOTFS_FILE_COUNT" "length (inodes fs) = ROOTFS_INODE_COUNT"
  shows "\<exists>fs'. init_ramfs m fs =
      Some (Inr (0, Some (RAMFS_START + of_nat (length (archive_bytes ino xs) - 11)), fs')) \<and>
    (\<forall>i<length xs. stored m fs' i (xs ! i))"
proof -
  have "has_data (obj_entry x) \<longleftrightarrow> obj_data x \<noteq> []" for x
    by (cases x) (auto simp: has_data_def obj_entry_def)
  then have few: "length (filter has_data (map obj_entry xs)) < 128"
    using assms(4) by (simp add: filter_map comp_def)
  note a = archive_bytes_archive [OF assms(1,2)]
  have "length (map obj_entry xs) < 256" using assms(3) by simp
  from init_ramfs_archive [OF conjunct1 [OF a] this few assms(5,6)] obtain fs' where
    "init_ramfs m fs = Some (Inr (0, Some (RAMFS_START + of_nat (length (archive_bytes ino xs) - 11)), fs'))"
    "\<forall>i<length xs. loaded fs' i (entry_addr RAMFS_START (map obj_entry xs) i) (obj_entry (xs ! i))" by auto
  with conjunct2 [OF a] show ?thesis by (auto intro: loaded_stored)
qed

section \<open>Finding what was loaded\<close>

lemma prefix_nth: "prefix a b \<longleftrightarrow> length a \<le> length b \<and> (\<forall>j<length a. a ! j = b ! j)"
proof
  assume r: "length a \<le> length b \<and> (\<forall>j<length a. a ! j = b ! j)"
  then have "take (length a) b = a" by (intro nth_equalityI) simp_all
  then show "prefix a b" by (metis take_is_prefix)
qed (auto simp: prefix_def nth_append)

lemma pad_name_cstring: "plain n \<Longrightarrow> is_cstring (arr_str (pad_name n)) (length n)"
  by (auto simp: is_cstring_def arr_str_def plain_def pad_name_def nth_append in_set_conv_nth)

lemma strequal_names:
  assumes "plain a" "plain b"
  shows "strequal (arr_str (pad_name a)) (arr_str (pad_name b)) = Some (if prefix a b then 1 else 0)"
proof -
  have "arr_str (pad_name a) j = arr_str (pad_name b) j \<longleftrightarrow> a ! j = b ! j" if "j < length a" "length a \<le> length b" for j
    using that assms by (auto simp: arr_str_def pad_name_def plain_def nth_append)
  then show ?thesis
    using streq.eq_terminated [OF pad_name_cstring [OF assms(1)] pad_name_cstring [OF assms(2)]]
    by (auto simp: prefix_nth)
qed

lemma search_file_loop_first:
  assumes names: "\<And>i. i \<le> k \<Longrightarrow> file_name (files fs ! i) = pad_name (ns i) \<and> plain (ns i)"
    and first: "\<And>i. i < k \<Longrightarrow> \<not> prefix (ns i) (ns k)" and k: "k < ROOTFS_FILE_COUNT" and i: "i \<le> k"
  shows "search_file_loop i (arr_str (pad_name (ns k))) fs = Inr (Some k)"
  using i
proof (induction "k - i" arbitrary: i)
  case 0
  then have "i = k" by simp
  then show ?case using names [of k] k by (subst search_file_loop.simps) (simp add: strequal_names)
next
  case (Suc d)
  then have "i < k" "d = k - (i + 1)" by simp_all
  moreover from this have "search_file_loop (i + 1) (arr_str (pad_name (ns k))) fs = Inr (Some k)"
    by (intro Suc.hyps(1)) simp_all
  moreover have "strequal (arr_str (file_name (files fs ! i))) (arr_str (pad_name (ns k))) = Some 0"
    using names [of i] names [of k] first [OF \<open>i < k\<close>] \<open>i < k\<close> by (simp add: strequal_names)
  ultimately show ?case using k by (subst search_file_loop.simps) simp
qed

lemma stored_found:
  assumes st: "\<And>i. i < length xs \<Longrightarrow> stored m fs i (xs ! i)" and ok: "list_all readable xs" "length xs < 256"
    and k: "k < length xs" "\<And>i. i < k \<Longrightarrow> \<not> prefix (obj_name (xs ! i)) (obj_name (xs ! k))"
  shows "search_file (arr_str (pad_name (obj_name (xs ! k)))) fs = Inr (Some k)"
  unfolding search_file_def
proof (rule search_file_loop_first [where ns = "\<lambda>i. obj_name (xs ! i)"])
  fix i assume "i \<le> k"
  with k(1) ok st show "file_name (files fs ! i) = pad_name (obj_name (xs ! i)) \<and> plain (obj_name (xs ! i))"
    by (auto simp: stored_def list_all_length readable_def)
qed (use k ok in \<open>simp_all add: ramfs_counts\<close>)

lemma stored_read:
  assumes "search_file n fs = Inr (Some k)" "stored m fs k x" "obj_data x \<noteq> []" "length (obj_data x) < 2 ^ 32"
  shows "read n offset fs = Inr (if length (obj_data x) < unat offset then -1 else 0)"
proof -
  have "unat (of_nat (length (obj_data x)) :: u32) = length (obj_data x)"
    using assms(4) by (simp add: unat_of_nat take_bit_nat_eq_self)
  then show ?thesis using assms(1-3) by (auto simp: read_def stored_def word_less_nat_alt)
qed

section \<open>A sample archive\<close>

definition sample_objects :: "cpio_object list" where
  "sample_objects = [Dir [0x62, 0x69, 0x6E], Reg [0x73, 0x68] [0x68, 0x65, 0x6C, 0x6C, 0x6F]]"

definition sample_image :: memory where
  "sample_image = (\<lambda>x. if unat (x - RAMFS_START) < length (archive_bytes 1 sample_objects)
     then archive_bytes 1 sample_objects ! unat (x - RAMFS_START) else 0)"

lemma sample_image_bytes: "bytes_at sample_image RAMFS_START (archive_bytes 1 sample_objects)"
  unfolding sample_image_def by (rule bytes_at_list) (simp add: sample_objects_def obj_bytes_def)

lemma sample_objects_readable: "list_all readable sample_objects"
  by (simp add: sample_objects_def readable_def plain_def FILENAME_SIZE_def END_def)

lemma sample_sizes:
  "length sample_objects < 256" "length (filter (\<lambda>x. obj_data x \<noteq> []) sample_objects) < 128"
  "length (files empty_ramfs) = ROOTFS_FILE_COUNT" "length (inodes empty_ramfs) = ROOTFS_INODE_COUNT"
  "1 < length sample_objects"
  by (simp_all add: sample_objects_def empty_ramfs_def)

section \<open>Properties\<close>

text \<open>C7: Reading back a written archive. When the memory at \<^verbatim>\<open>RAMFS_START\<close> holds the archive of fewer than 256 readable
  objects, at most 127 of them with data, \<^verbatim>\<open>init_ramfs\<close> returns 0 with the address of the trailer's name, and
  slot \<open>i\<close> of the file system holds object \<open>i\<close>: its name, its type, and for a file with data an inode with
  its size that points to its content.\<close>

theorem init_ramfs_reads_written_archive:
  assumes "bytes_at m RAMFS_START (archive_bytes ino xs)" "list_all readable xs"
    and "length xs < 256" "length (filter (\<lambda>x. obj_data x \<noteq> []) xs) < 128"
    and "length (files fs) = ROOTFS_FILE_COUNT" "length (inodes fs) = ROOTFS_INODE_COUNT"
  shows "\<exists>fs'. init_ramfs m fs =
      Some (Inr (0, Some (RAMFS_START + of_nat (length (archive_bytes ino xs) - 11)), fs')) \<and>
    (\<forall>i<length xs. stored m fs' i (xs ! i))"
  using assms by (rule archive_stored)

theorem init_ramfs_reads_written_archive_witness:
  "\<exists>fs'. init_ramfs sample_image empty_ramfs = Some (Inr (0, Some (RAMFS_START + 350), fs')) \<and>
     stored sample_image fs' 1 (Reg [0x73, 0x68] [0x68, 0x65, 0x6C, 0x6C, 0x6F])"
proof -
  have n: "length (archive_bytes 1 sample_objects) = 361" by (simp add: sample_objects_def obj_bytes_def)
  obtain fs' where "init_ramfs sample_image empty_ramfs =
      Some (Inr (0, Some (RAMFS_START + of_nat (length (archive_bytes 1 sample_objects) - 11)), fs'))"
    "\<forall>i<length sample_objects. stored sample_image fs' i (sample_objects ! i)"
    using init_ramfs_reads_written_archive [OF sample_image_bytes sample_objects_readable sample_sizes(1-4)] by blast
  moreover from this(2) [rule_format, OF sample_sizes(5)]
  have "stored sample_image fs' 1 (Reg [0x73, 0x68] [0x68, 0x65, 0x6C, 0x6C, 0x6F])"
    by (simp add: sample_objects_def)
  ultimately show ?thesis unfolding n by auto
qed

text \<open>C13: Files of a loaded archive are found by name: if no earlier name is a prefix of the name of object \<open>k\<close>,
  \<^verbatim>\<open>search_file\<close> returns slot \<open>k\<close>, and \<^verbatim>\<open>read\<close> of a file with data returns 0 for offsets up to its size and -1 beyond.\<close>

theorem archived_file_found:
  assumes "bytes_at m RAMFS_START (archive_bytes ino xs)" "list_all readable xs"
    and "length xs < 256" "length (filter (\<lambda>x. obj_data x \<noteq> []) xs) < 128"
    and "length (files fs) = ROOTFS_FILE_COUNT" "length (inodes fs) = ROOTFS_INODE_COUNT"
    and "k < length xs" "\<And>i. i < k \<Longrightarrow> \<not> prefix (obj_name (xs ! i)) (obj_name (xs ! k))"
  shows "\<exists>e fs'. init_ramfs m fs = Some (Inr (0, Some e, fs')) \<and>
    search_file (arr_str (pad_name (obj_name (xs ! k)))) fs' = Inr (Some k) \<and>
    (obj_data (xs ! k) \<noteq> [] \<longrightarrow>
       read (arr_str (pad_name (obj_name (xs ! k)))) offset fs' =
         Inr (if length (obj_data (xs ! k)) < unat offset then -1 else 0))"
proof -
  obtain e fs' where fs': "init_ramfs m fs = Some (Inr (0, Some e, fs'))" "\<forall>i<length xs. stored m fs' i (xs ! i)"
    using archive_stored [OF assms(1-6)] by blast
  have found: "search_file (arr_str (pad_name (obj_name (xs ! k)))) fs' = Inr (Some k)"
    using fs'(2) assms(2,3,7,8) by (intro stored_found) auto
  have "length (obj_data (xs ! k)) < 2 ^ 32" using assms(2,7) by (simp add: list_all_length readable_def)
  with stored_read [OF found] fs' found assms(7) show ?thesis by blast
qed

theorem archived_file_found_witness:
  "\<exists>e fs'. init_ramfs sample_image empty_ramfs = Some (Inr (0, Some e, fs')) \<and>
     search_file (arr_str (pad_name [0x73, 0x68])) fs' = Inr (Some 1) \<and>
     read (arr_str (pad_name [0x73, 0x68])) 6 fs' = Inr (-1)"
proof -
  have "\<not> prefix (obj_name (sample_objects ! i)) (obj_name (sample_objects ! 1))" if "i < 1" for i
    using that by (simp add: sample_objects_def)
  from archived_file_found [OF sample_image_bytes sample_objects_readable sample_sizes this, of 6]
  show ?thesis by (simp add: sample_objects_def)
qed

end
