(* ===== verification/Spec2Isabelle.thy ===== *)
theory Spec2Isabelle
  imports Process_Inv Sleeplock Boot Descriptors Startup Vectors Libc Rootfs_Safe Cpio
begin

text \<open>
  SkinnyArm, a small kernel for the Raspberry Pi 3 (AArch64), verified.

  \<^bold>\<open>The program.\<close> Core 0 starts in \<^verbatim>\<open>kernel/boot.S\<close>, clears \<^verbatim>\<open>.bss\<close>, releases the other cores, and every core
  enters \<^verbatim>\<open>main\<close> (\<^verbatim>\<open>kernel/main.c\<close>) on its own stack. Core 0 builds the list of free page frames
  (\<^verbatim>\<open>kalloc.c\<close>), makes the kernel's page tables from it (\<^verbatim>\<open>vmem.c\<close>), turns on the memory management unit,
  reads the initial file system from a cpio archive in memory (\<^verbatim>\<open>rootfs.c\<close>, with \<^verbatim>\<open>string.c\<close>), sets the
  exception vectors, the serial line (\<^verbatim>\<open>uart.c\<close>) and the timer (\<^verbatim>\<open>low_level.c\<close>). Processes (\<^verbatim>\<open>process.c\<close>) take
  frames from the allocator and are switched by \<^verbatim>\<open>user_context.S\<close>; spin locks and sleep locks (\<^verbatim>\<open>lock.c\<close>) use
  the process table to wait. Exceptions come in through \<^verbatim>\<open>exception_vector.S\<close> and end in the handlers of
  \<^verbatim>\<open>exceptions.c\<close>; user programs (\<^verbatim>\<open>user/\<close>) reach the kernel by \<^verbatim>\<open>svc\<close>.

  \<^bold>\<open>The theories.\<close> Each holds the model of one part, then its lemmas, then its properties.
  \<^item> Prelude: words, byte-addressed memory with 64-bit loads and stores, pages and runs of pages, and
    the contract \<open>invariant_system\<close> of a step relation with an invariant.
  \<^item> Memory_Map: the constants of \<^verbatim>\<open>memory_map.h\<close> and \<^verbatim>\<open>low_level.h\<close>, all device registers among them.
  \<^item> Strings: \<^verbatim>\<open>strequal\<close> and \<^verbatim>\<open>strcpy\<close>. A string is a partial function from index to byte, so that reading
    outside an object shows. The contract \<open>string_test\<close> is what the file system uses of \<open>strequal\<close>.
  \<^item> Kalloc: the free list in memory, \<open>kalloc_init\<close>, \<open>clear_page\<close>, \<open>kfree\<close>, \<open>kalloc\<close> over the record \<open>kmem\<close>. The
    contract \<open>page_allocator\<close> is what the other parts use of it; it is interpreted on these functions.
    The allocator refines a stack of frames over every sequence of calls.
  \<^item> Pte: the entry macros of \<^verbatim>\<open>vmem.c\<close> on 64-bit words. Vmem: all functions of \<^verbatim>\<open>vmem.c\<close>; \<open>walk\<close> and
    \<open>translate\<close> read tables as an abstract map from virtual to physical pages, and \<open>pt_wf\<close> is the
    invariant that tables are disjoint frames outside the free list. Vmem_Region: regions, the
    kernel's tables, and what freeing and cloning do. Kernel_Map: \<open>kernel_space\<close> says which addresses the
    kernel can use; the tables of \<open>make_kpagetable\<close> translate exactly so, and every register is looked up
    in it. Descriptors: the same tables as the hardware reads them.
  \<^item> Spinlock, Sleeplock: the functions of \<^verbatim>\<open>lock.c\<close>, and step relations that interleave them between
    cores instruction by instruction.
  \<^item> Process: all of \<^verbatim>\<open>process.c\<close>, \<open>switch_to\<close> and \<open>user_start\<close> over the record \<open>kernel\<close>. Process_Inv: the step
    relation of process operations, the invariant that frames of live processes and the free list are
    disjoint and pids distinct, and the behaviour of each operation.
  \<^item> Rootfs: the data and functions of \<^verbatim>\<open>rootfs.c\<close>, with invalid accesses as values of \<open>fs_error\<close>, and the
    meaning of an archive. Rootfs_Load: what loading an archive yields. Cpio: a writer of archives in the
    layout of \<^verbatim>\<open>struct cpio_newc_header\<close>; what it writes is read back, found and measured. Rootfs_Safe: on
    arbitrary bytes every index stays in its array.
  \<^item> Uart: \<^verbatim>\<open>uart.c\<close>, \<open>handle_irq\<close>, \<open>exception_handler\<close> and the timer over a bus \<open>rd\<close>/\<open>wr\<close> on a device state.
    \<open>mini_uart\<close> is what the driver relies on of the device; \<open>sim_bus\<close> is a device that satisfies it.
  \<^item> Trap: \<open>uservec\<close>, \<open>userret\<close>, \<open>kernel_entry\<close>, \<open>kernel_exit\<close> register by register. Vectors: the vector table
    and one whole exception, from entry through its handler to \<^verbatim>\<open>eret\<close>.
  \<^item> Startup: \<^verbatim>\<open>boot.S\<close> up to \<^verbatim>\<open>main\<close>. Boot: \<open>enable_vmem\<close>, the register functions of \<^verbatim>\<open>low_level.c\<close> and \<open>main\<close>, on
    a record that extends \<open>kmem\<close> with file system, device and system registers. From \<open>enable_vmem\<close> on an access whose
    address the memory management unit does not translate is the outcome \<open>Faults\<close>; the properties say where \<^verbatim>\<open>main\<close>
    faults and in which state, and what its last part does.
  \<^item> Libc: the system-call functions of \<^verbatim>\<open>user/libc.c\<close>, and \<^verbatim>\<open>init\<close>.

  \<^bold>\<open>Conventions.\<close> \<^verbatim>\<open>uint8_t\<close>, \<^verbatim>\<open>uint32_t\<close>, \<^verbatim>\<open>uint64_t\<close> and pointers are words of their width and wrap; \<^verbatim>\<open>NULL\<close> is 0. A
  loop with a visible bound is a recursive function with a termination proof. A loop that may run
  forever is a partial function into an option type, \<open>None\<close> meaning that it does not return; no fuel is
  used, and that a call returns is always stated as such. Values the code leaves indeterminate (an
  uninitialised variable, the result of a function that ends without \<^verbatim>\<open>return\<close>) are arguments named
  \<open>junk\<close> or after the variable. Linker symbols, label addresses and read-only registers are arguments.

  \<^bold>\<open>Bounds.\<close> Page-table properties ask for frames below \<open>2 ^ 36\<close>, the addresses an entry can hold; the
  machine has 1 GB. \<open>main_stops_at_archive\<close> asks for a kernel image that ends at or below the archive at
  \<^verbatim>\<open>0x8000000\<close>, which leaves more than the \<open>4 * n + 16384\<close> frames its tables can need.

  \<^bold>\<open>Hypotheses on what is outside.\<close> The mini UART (\<open>mini_uart\<close>, \<open>uart_config\<close>), the procedure call standard
  (\<open>aapcs\<close>), the register allocation of inline assembly (\<open>allocation\<close>), and the first level of a hardware
  table walk (\<open>arm_level0\<close>). Each is met by a concrete instance in the witness of its
  properties. The memory management unit is an argument of \<open>main\<close>; its properties take \<open>translate\<close>, which reads the
  tables as \<^verbatim>\<open>vmem.c\<close> writes them, or any unit with \<open>arm_level0\<close>. The process-table invariant assumes of the callers of
  \<^verbatim>\<open>kill_process\<close> that they do not kill a free slot or the running process (\<open>kill_legal\<close>).

  \<^bold>\<open>Not modelled.\<close> \<^verbatim>\<open>kernel/sysfile.c\<close> holds only a comment, and so do the body of \<^verbatim>\<open>sys_execve\<close>, which
  therefore does nothing, and the dispatch in \<^verbatim>\<open>handle_syscall\<close>; \<^verbatim>\<open>mmap\<close> and \<^verbatim>\<open>munmmap\<close> are declared and never
  defined, \<^verbatim>\<open>free_files\<close> and \<^verbatim>\<open>free_inodes\<close> are never used. \<^verbatim>\<open>user/cat.c\<close> depends on the results of
  library functions that return from inside their \<^verbatim>\<open>asm\<close> text, with a stack pointer and a result that only the
  compiled code determines. Prologues and epilogues the compiler adds, accesses to the image and to later pages of
  the archive after the unit is on, instruction and data caches, TLB contents, and reorderings of a weak
  memory model are outside the model: stores take effect in program order. The macros \<^verbatim>\<open>GET_K_EXEC\<close>,
  \<^verbatim>\<open>GET_KUACCES\<close> and \<^verbatim>\<open>GET_MAIR\<close> are unused and do not expand to valid C.
\<close>

end
